theory Spec2Isabelle
  imports Complex_Main "HOL-Library.Multiset" "HOL-Library.Product_Lexorder"
begin

section \<open>Line reconstruction (\<^verbatim>\<open>process_ocr_result\<close>, app.py lines 37--84)\<close>

text \<open>
  An exception is modelled by the text of its message (what \<^verbatim>\<open>str(e)\<close> gives the
  handlers of the endpoints).  A computation that may raise returns \<open>exn + 'a\<close>, with
  \<open>Inl\<close> for the exception.

  Coordinates are Python numbers, modelled as rationals (so there is no infinity and no
  NaN), and the arithmetic of the model is exact.  Python computes the midpoint
  \<^verbatim>\<open>(box[0][1] + box[2][1]) / 2\<close> of line 54 and the difference
  \<^verbatim>\<open>item['y'] - last_item_in_line['y']\<close> of line 73 in binary64, or on integers with a
  true division: the result is rounded when it has no binary64 representation, and a
  true division of integers raises \<^verbatim>\<open>OverflowError\<close> when the quotient is too large for
  a float.  On pixel coordinates (whole numbers of magnitude at most \<open>2^50\<close>, the
  predicate \<open>pixel\<close> below) none of this happens: the sum is a whole number below \<open>2^53\<close>,
  the midpoint a multiple of \<open>1/2\<close> and so is every difference of two midpoints, all of
  them representable, and the model computes what the code computes.  Outside these
  coordinates the model is not claimed to follow the code (with the anchors \<open>0.1\<close> and
  \<open>18.1\<close> the code computes the difference \<open>18.0\<close> and keeps one line, where the exact
  difference of the two binary64 numbers exceeds 18); the theorems about anchors are stated
  for pixel coordinates.
\<close>

type_synonym exn = string

type_synonym point = "rat list"

text \<open>One detection: \<^verbatim>\<open>[bounding_box, (text, confidence_score)]\<close>.\<close>

type_synonym raw_item = "point list \<times> (string \<times> rat)"

text \<open>
  What \<^verbatim>\<open>ocr_model.ocr\<close> returns: \<^verbatim>\<open>None\<close> or a list with one entry per page, each
  entry \<^verbatim>\<open>None\<close> or the list of detections of the page.
\<close>

type_synonym ocr_result = "raw_item list option list option"

text \<open>The dictionary appended at line 57, with its keys \<^verbatim>\<open>text\<close> (the field \<open>item_text\<close>: \<open>text\<close> is a keyword), \<^verbatim>\<open>y\<close> and \<^verbatim>\<open>x\<close>.\<close>

record coord =
  item_text :: string
  y_coord :: rat
  x_coord :: rat

definition index_error :: exn where
  "index_error = ''list index out of range''"

text \<open>\<^verbatim>\<open>xs[i]\<close> for a literal index \<open>i \<ge> 0\<close>: IndexError out of range.\<close>

definition getitem :: "'a list \<Rightarrow> nat \<Rightarrow> exn + 'a" where
  "getitem xs i = (if i < length xs then Inr (xs ! i) else Inl index_error)"

text \<open>The body of the first loop (lines 49--57), for one detection.\<close>

definition item_coord :: "raw_item \<Rightarrow> exn + coord" where
  "item_coord item =
     (let box = fst item; t = fst (snd item) in
      (case getitem box 0 of Inl e \<Rightarrow> Inl e | Inr p0 \<Rightarrow>
      (case getitem p0 1 of Inl e \<Rightarrow> Inl e | Inr y0 \<Rightarrow>
      (case getitem box 2 of Inl e \<Rightarrow> Inl e | Inr p2 \<Rightarrow>
      (case getitem p2 1 of Inl e \<Rightarrow> Inl e | Inr y2 \<Rightarrow>
      (case getitem p0 0 of Inl e \<Rightarrow> Inl e | Inr x0 \<Rightarrow>
        Inr \<lparr>item_text = t, y_coord = (y0 + y2) / 2, x_coord = x0\<rparr>))))))"

text \<open>The first loop (lines 46--57): \<open>acc\<close> is the list \<^verbatim>\<open>text_coordinates\<close> so far.\<close>

fun text_coordinates :: "coord list \<Rightarrow> raw_item list \<Rightarrow> exn + coord list" where
  "text_coordinates acc [] = Inr acc"
| "text_coordinates acc (item # items) =
     (case item_coord item of
        Inl e \<Rightarrow> Inl e
      | Inr c \<Rightarrow> text_coordinates (acc @ [c]) items)"

text \<open>\<^verbatim>\<open>sep.join(xs)\<close> on strings.\<close>

fun join :: "string \<Rightarrow> string list \<Rightarrow> string" where
  "join sep [] = []"
| "join sep [s] = s"
| "join sep (s # t # ts) = s @ sep @ join sep (t # ts)"

definition line_threshold :: rat where
  "line_threshold = 18"

text \<open>
  Closing a line (lines 76--77 and 81--82): \<^verbatim>\<open>current_line.sort\<close> with the key \<^verbatim>\<open>x\<close>,
  a stable sort as \<open>sort_key\<close> is, then the texts joined by one space.
\<close>

definition format_line :: "coord list \<Rightarrow> string" where
  "format_line current_line = join '' '' (map item_text (sort_key x_coord current_line))"

text \<open>
  The grouping loop (lines 69--78) over the items that remain, with the variables
  \<^verbatim>\<open>current_line\<close> and \<^verbatim>\<open>formatted_lines\<close> as arguments; it returns both when the
  sequence is exhausted.  \<^verbatim>\<open>current_line\<close> starts with one element and is never
  empty, so \<^verbatim>\<open>current_line[-1]\<close> is \<open>last\<close>.
\<close>

fun group_lines :: "coord list \<Rightarrow> string list \<Rightarrow> coord list \<Rightarrow> string list \<times> coord list" where
  "group_lines current_line formatted_lines [] = (formatted_lines, current_line)"
| "group_lines current_line formatted_lines (current_item # rest) =
     (let prev_item = last current_line in
      if abs (y_coord current_item - y_coord prev_item) \<le> line_threshold
      then group_lines (current_line @ [current_item]) formatted_lines rest
      else group_lines [current_item] (formatted_lines @ [format_line current_line]) rest)"

text \<open>The key of the sort of line 60.\<close>

definition sort_item_key :: "coord \<Rightarrow> rat \<times> rat" where
  "sort_item_key item = (y_coord item, x_coord item)"

text \<open>
  Lines 59--82: the list \<^verbatim>\<open>formatted_lines\<close> when line 84 is reached (the empty list
  stands for the early return of line 66, which \<open>format_coordinates\<close> takes).
\<close>

definition formatted_lines :: "coord list \<Rightarrow> string list" where
  "formatted_lines text_coords =
     (case sort_key sort_item_key text_coords of
        [] \<Rightarrow> []
      | first # rest \<Rightarrow>
          (case group_lines [first] [] rest of
             (lines, current_line) \<Rightarrow>
               if current_line \<noteq> [] then lines @ [format_line current_line] else lines))"

text \<open>Lines 59--84.\<close>

definition format_coordinates :: "coord list \<Rightarrow> string" where
  "format_coordinates text_coords =
     (if sort_key sort_item_key text_coords = [] then ''''
      else join [CHR 0x0A] (formatted_lines text_coords))"

definition no_text_found :: string where
  "no_text_found = ''No text found.''"

text \<open>
  \<^verbatim>\<open>not result or not result[0]\<close>: \<^verbatim>\<open>None\<close> and the empty list are falsy.
\<close>

fun first_page :: "ocr_result \<Rightarrow> raw_item list" where
  "first_page None = []"
| "first_page (Some []) = []"
| "first_page (Some (None # pages)) = []"
| "first_page (Some (Some items # pages)) = items"

definition process_ocr_result :: "ocr_result \<Rightarrow> exn + string" where
  "process_ocr_result result =
     (if first_page result = [] then Inr no_text_found
      else case text_coordinates [] (first_page result) of
             Inl e \<Rightarrow> Inl e
           | Inr text_coords \<Rightarrow> Inr (format_coordinates text_coords))"


section \<open>The clusterer and the formatter as the specification words them\<close>

text \<open>
  The source closes and formats a line in one step, so the lines themselves never exist as
  a value.  The definitions of this section follow the specification (sections 4.1 and
  4.2), which separates the two; \<open>formatted_lines_clusterer\<close> below relates them to
  the loop of the source.

  \<open>walk\<close>: ``walk the sorted sequence once, maintaining an open line; for each subsequent
  fragment, compare its anchorY to the anchorY of the last fragment added to the open
  line; if the absolute difference is at most the threshold (18), append the fragment to
  the open line; otherwise close the open line and start a new open line with this
  fragment; after the walk, finalize the last open line''.
\<close>

fun walk :: "coord list \<Rightarrow> coord list \<Rightarrow> coord list list" where
  "walk open_line [] = [open_line]"
| "walk open_line (f # fs) =
     (if abs (y_coord f - y_coord (last open_line)) \<le> 18
      then walk (open_line @ [f]) fs
      else open_line # walk [f] fs)"

text \<open>
  ``If the input set is empty, return an empty sequence; sort all fragments by the pair
  (anchorY, anchorX) ascending; walk the sorted sequence, the open line initially the first
  fragment''.
\<close>

definition clusterer :: "coord list \<Rightarrow> coord list list" where
  "clusterer fragments =
     (case sort_key (\<lambda>f. (y_coord f, x_coord f)) fragments of
        [] \<Rightarrow> []
      | f # fs \<Rightarrow> walk [f] fs)"

text \<open>Every step inside a line is within the threshold.\<close>

fun chained :: "coord list \<Rightarrow> bool" where
  "chained (a # b # fs) = (abs (y_coord b - y_coord a) \<le> 18 \<and> chained (b # fs))"
| "chained fs = True"

text \<open>Every step from the last member of a line to the first of the next exceeds it.\<close>

fun separated :: "coord list list \<Rightarrow> bool" where
  "separated (k # l # ls) = (abs (y_coord (hd l) - y_coord (last k)) > 18 \<and> separated (l # ls))"
| "separated ls = True"

text \<open>
  The texts of one line in reading order: ``within each line, sort fragments by anchorX
  ascending (stable on ties)''.
\<close>

definition line_texts :: "coord list \<Rightarrow> string list" where
  "line_texts l = map item_text (sort_key x_coord l)"

text \<open>
  A box that the first loop can read: the detector returns four corner points with two
  coordinates each; the loop reads points 0 and 2.
\<close>

definition well_formed_box :: "point list \<Rightarrow> bool" where
  "well_formed_box box = (3 \<le> length box \<and> 2 \<le> length (box ! 0) \<and> 2 \<le> length (box ! 2))"

text \<open>
  Pixel coordinates: whole numbers of magnitude at most \<open>2^50\<close>.  The anchor of a box of
  pixel coordinates is a multiple of \<open>1/2\<close> of magnitude at most \<open>2^50\<close>; on such anchors
  the arithmetic of lines 54 and 73 is exact in binary64.
\<close>

definition pixel :: "rat \<Rightarrow> bool" where
  "pixel q = (of_int \<lfloor>q\<rfloor> = q \<and> abs q \<le> 2 ^ 50)"

definition exact_anchor :: "rat \<Rightarrow> bool" where
  "exact_anchor y = (of_int \<lfloor>2 * y\<rfloor> = 2 * y \<and> abs y \<le> 2 ^ 50)"

definition pixel_box :: "point list \<Rightarrow> bool" where
  "pixel_box box = list_all (list_all pixel) box"

text \<open>
  \<^verbatim>\<open>s.split(sep)\<close> for a separator of one character, which reads the formatted output back:
  the pieces between the occurrences of \<open>sep\<close>, empty pieces included; \<open>cur\<close> is the
  piece being read.
\<close>

fun split_on :: "char \<Rightarrow> string \<Rightarrow> string \<Rightarrow> string list" where
  "split_on sep cur [] = [cur]"
| "split_on sep cur (c # cs) =
     (if c = sep then cur # split_on sep [] cs else split_on sep (cur @ [c]) cs)"


section \<open>File-type validation (\<^verbatim>\<open>allowed_file\<close>, app.py lines 32--35)\<close>

definition UPLOAD_FOLDER :: string where
  "UPLOAD_FOLDER = ''uploads''"

definition ALLOWED_EXTENSIONS :: "string set" where
  "ALLOWED_EXTENSIONS = {''png'', ''jpg'', ''jpeg''}"

text \<open>
  \<^verbatim>\<open>str.lower\<close> on the characters up to U+00FF, which is all that \<open>char\<close> holds: the
  letters A to Z and the capital letters of Latin-1 (U+00C0 to U+00DE without the
  multiplication sign U+00D7) go to their lowercase letters, every other character is left
  as it is.
\<close>

definition uppercase :: string where
  "uppercase = ''ABCDEFGHIJKLMNOPQRSTUVWXYZ''
          @ [CHR 0xC0, CHR 0xC1, CHR 0xC2, CHR 0xC3, CHR 0xC4, CHR 0xC5, CHR 0xC6, CHR 0xC7,
             CHR 0xC8, CHR 0xC9, CHR 0xCA, CHR 0xCB, CHR 0xCC, CHR 0xCD, CHR 0xCE, CHR 0xCF,
             CHR 0xD0, CHR 0xD1, CHR 0xD2, CHR 0xD3, CHR 0xD4, CHR 0xD5, CHR 0xD6, CHR 0xD8,
             CHR 0xD9, CHR 0xDA, CHR 0xDB, CHR 0xDC, CHR 0xDD, CHR 0xDE]"

definition lowercase :: string where
  "lowercase = ''abcdefghijklmnopqrstuvwxyz''
          @ [CHR 0xE0, CHR 0xE1, CHR 0xE2, CHR 0xE3, CHR 0xE4, CHR 0xE5, CHR 0xE6, CHR 0xE7,
             CHR 0xE8, CHR 0xE9, CHR 0xEA, CHR 0xEB, CHR 0xEC, CHR 0xED, CHR 0xEE, CHR 0xEF,
             CHR 0xF0, CHR 0xF1, CHR 0xF2, CHR 0xF3, CHR 0xF4, CHR 0xF5, CHR 0xF6, CHR 0xF8,
             CHR 0xF9, CHR 0xFA, CHR 0xFB, CHR 0xFC, CHR 0xFD, CHR 0xFE]"

definition lower_char :: "char \<Rightarrow> char" where
  "lower_char c = (case map_of (zip uppercase lowercase) c of Some d \<Rightarrow> d | None \<Rightarrow> c)"

definition lower :: "string \<Rightarrow> string" where
  "lower s = map lower_char s"

text \<open>
  \<^verbatim>\<open>s.rsplit(sep, 1)\<close>: the string cut at the last occurrence of \<open>sep\<close>, or the string
  alone when \<open>sep\<close> does not occur.
\<close>

definition rsplit1 :: "char \<Rightarrow> string \<Rightarrow> string list" where
  "rsplit1 sep s =
     (if sep \<in> set s
      then [rev (tl (dropWhile (\<lambda>c. c \<noteq> sep) (rev s))), rev (takeWhile (\<lambda>c. c \<noteq> sep) (rev s))]
      else [s])"

text \<open>
  The \<^verbatim>\<open>and\<close> of line 34 evaluates its right operand, and so the index \<^verbatim>\<open>[1]\<close>, only
  when the name contains a dot.
\<close>

definition allowed_file :: "string \<Rightarrow> bool" where
  "allowed_file filename =
     (if CHR ''.'' \<in> set filename
      then lower (rsplit1 CHR ''.'' filename ! 1) \<in> ALLOWED_EXTENSIONS
      else False)"


section \<open>The collaborators and the state of the world\<close>

text \<open>
  The detector, the image library, the uploaded file and the file system are outside the
  source.  Their answers are the fields of an environment; what the endpoints do to the
  file system, the identifiers drawn and the calls made, in order, are the state.  The
  answer of a collaborator is a function of what it is given (the upload, the bytes stored
  at the path, the image), not of the calls made before.  \<^verbatim>\<open>os.path.exists\<close>,
  \<^verbatim>\<open>os.remove\<close>, \<^verbatim>\<open>os.makedirs\<close>, \<^verbatim>\<open>uuid.uuid4\<close> and \<^verbatim>\<open>jsonify\<close> are taken to
  return.
\<close>

type_synonym path = string
type_synonym bytes = string
type_synonym image = "nat list"

text \<open>An uploaded file (werkzeug's \<^verbatim>\<open>FileStorage\<close>): its name and its content.\<close>

record upload =
  filename :: string
  content :: bytes

text \<open>\<^verbatim>\<open>bool(file)\<close> is \<^verbatim>\<open>bool(file.filename)\<close>.\<close>

definition truthy :: "upload \<Rightarrow> bool" where
  "truthy file = (filename file \<noteq> '''')"

text \<open>
  What a collaborator raises: an exception that derives from \<^verbatim>\<open>Exception\<close>, which the
  clauses \<^verbatim>\<open>except Exception\<close> catch, or another \<^verbatim>\<open>BaseException\<close> (such as
  \<^verbatim>\<open>KeyboardInterrupt\<close> or \<^verbatim>\<open>SystemExit\<close>), which they do not catch; both carry the text
  that \<^verbatim>\<open>str(e)\<close> gives.
\<close>

datatype raised = Exception exn | BaseException exn

fun message :: "raised \<Rightarrow> exn" where
  "message (Exception m) = m"
| "message (BaseException m) = m"

text \<open>
  \<^verbatim>\<open>process_ocr_result\<close> as the endpoints call it: what it raises (\<^verbatim>\<open>IndexError\<close>) derives
  from \<^verbatim>\<open>Exception\<close>.
\<close>

definition reconstruct :: "ocr_result \<Rightarrow> raised + string" where
  "reconstruct result =
     (case process_ocr_result result of Inl e \<Rightarrow> Inl (Exception e) | Inr formatted_text \<Rightarrow> Inr formatted_text)"

text \<open>
  \<^verbatim>\<open>file.save(path)\<close> returns or raises; when it raises, the destination may have
  been created already (\<open>Some\<close> of what was written) or not (\<open>None\<close>).
\<close>

datatype save_outcome = Saved | Save_raised raised "bytes option"

text \<open>
  What \<^verbatim>\<open>ocr_model.ocr\<close> is given: a path, of which the detector sees the bytes stored
  there (\<open>None\<close> when there is no such file), or an image array.
\<close>

datatype ocr_input = From_path "bytes option" | From_array image

record env =
  uuid4 :: "nat \<Rightarrow> string"
  file_save :: "upload \<Rightarrow> save_outcome"
  ocr :: "ocr_input \<Rightarrow> raised + ocr_result"
  imread :: "bytes option \<Rightarrow> image option"
  cvtColor :: "image option \<Rightarrow> raised + image"
  threshold :: "image \<Rightarrow> raised + image"

datatype event =
    Save path
  | Ocr_path path
  | Imread path
  | CvtColor
  | Threshold
  | Ocr_array
  | Remove path

record world =
  storage :: "path \<Rightarrow> bytes option"
  uuid_calls :: nat
  events :: "event list"

definition log :: "event \<Rightarrow> world \<Rightarrow> world" where
  "log ev w = w\<lparr>events := events w @ [ev]\<rparr>"

text \<open>\<^verbatim>\<open>os.path.join(a, b)\<close> on POSIX, for a folder \<open>a\<close> that does not end with a slash.\<close>

definition path_join :: "string \<Rightarrow> string \<Rightarrow> string" where
  "path_join a b = (if b \<noteq> [] \<and> hd b = CHR ''/'' then b else a @ ''/'' @ b)"

text \<open>\<^verbatim>\<open>file.save(filepath)\<close>.\<close>

definition save_file :: "env \<Rightarrow> upload \<Rightarrow> path \<Rightarrow> world \<Rightarrow> (raised + unit) \<times> world" where
  "save_file E file filepath w =
     (case file_save E file of
        Saved \<Rightarrow>
          (Inr (), log (Save filepath) (w\<lparr>storage := (storage w)(filepath \<mapsto> content file)\<rparr>))
      | Save_raised e None \<Rightarrow> (Inl e, log (Save filepath) w)
      | Save_raised e (Some partial) \<Rightarrow>
          (Inl e, log (Save filepath) (w\<lparr>storage := (storage w)(filepath \<mapsto> partial)\<rparr>)))"

text \<open>\<^verbatim>\<open>ocr_model.ocr(filepath, cls=False)\<close>.\<close>

definition ocr_file :: "env \<Rightarrow> path \<Rightarrow> world \<Rightarrow> (raised + ocr_result) \<times> world" where
  "ocr_file E filepath w = (ocr E (From_path (storage w filepath)), log (Ocr_path filepath) w)"

text \<open>The \<^verbatim>\<open>finally\<close> clause: \<^verbatim>\<open>if os.path.exists(filepath): os.remove(filepath)\<close>.\<close>

definition remove_if_exists :: "path \<Rightarrow> world \<Rightarrow> world" where
  "remove_if_exists filepath w =
     (if storage w filepath \<noteq> None
      then log (Remove filepath) (w\<lparr>storage := (storage w)(filepath := None)\<rparr>)
      else w)"

text \<open>
  One entry of \<^verbatim>\<open>results\<close>.  \<open>Success\<close>: filename and text, status success.
  \<open>Augmented\<close>: filename, text, original_text and the variants with their word counts,
  status success.  \<open>Failed\<close>: filename and error, with the text empty and status error.
\<close>

datatype outcome =
    Success string string
  | Augmented string string string "(string \<times> nat) list"
  | Failed string string

fun outcome_filename :: "outcome \<Rightarrow> string" where
  "outcome_filename (Success name t) = name"
| "outcome_filename (Augmented name t original variants) = name"
| "outcome_filename (Failed name e) = name"

fun is_error :: "outcome \<Rightarrow> bool" where
  "is_error (Failed name e) = True"
| "is_error out = False"

text \<open>The name an outcome carries: \<^verbatim>\<open>file.filename if file else 'Unknown'\<close>.\<close>

definition display_name :: "upload \<Rightarrow> string" where
  "display_name file = (if truthy file then filename file else ''Unknown'')"

definition not_allowed :: string where
  "not_allowed = ''File type not allowed''"

text \<open>
  The clauses \<^verbatim>\<open>except Exception as e\<close> and \<^verbatim>\<open>finally\<close> of the two batch endpoints
  (lines 125--129 and 194--198), applied to what the \<^verbatim>\<open>try\<close> body gave: an entry appended,
  an exception caught and recorded with its message, or an exception that is not caught
  and leaves the loop (\<open>Inl\<close>); the file is removed in all three cases.
\<close>

definition except_finally ::
  "string \<Rightarrow> path \<Rightarrow> (raised + outcome) \<times> world \<Rightarrow> (exn + outcome) \<times> world" where
  "except_finally name filepath tried =
     (case tried of
        (Inr entry, w1) \<Rightarrow> (Inr entry, remove_if_exists filepath w1)
      | (Inl (Exception m), w1) \<Rightarrow> (Inr (Failed name m), remove_if_exists filepath w1)
      | (Inl (BaseException m), w1) \<Rightarrow> (Inl m, remove_if_exists filepath w1))"


section \<open>The batch endpoint (\<^verbatim>\<open>upload_and_ocr_batch\<close>, app.py lines 93--133)\<close>

text \<open>The body of the \<^verbatim>\<open>try\<close> (lines 115--123), up to the entry appended.\<close>

definition batch_try :: "env \<Rightarrow> upload \<Rightarrow> path \<Rightarrow> world \<Rightarrow> (raised + outcome) \<times> world" where
  "batch_try E file filepath w =
     (case save_file E file filepath w of
        (Inl e, w1) \<Rightarrow> (Inl e, w1)
      | (Inr u, w1) \<Rightarrow>
          (case ocr_file E filepath w1 of
             (Inl e, w2) \<Rightarrow> (Inl e, w2)
           | (Inr result, w2) \<Rightarrow>
               (case reconstruct result of
                  Inl e \<Rightarrow> (Inl e, w2)
                | Inr formatted_text \<Rightarrow> (Inr (Success (filename file) formatted_text), w2))))"

text \<open>
  The body of the loop (lines 110--131): validation, then \<^verbatim>\<open>try\<close>, \<^verbatim>\<open>except\<close> and
  \<^verbatim>\<open>finally\<close>; it returns the entry appended to \<^verbatim>\<open>results\<close>, or the exception that
  leaves the loop.
\<close>

definition batch_item :: "env \<Rightarrow> world \<Rightarrow> upload \<Rightarrow> (exn + outcome) \<times> world" where
  "batch_item E w file =
     (if truthy file \<and> allowed_file (filename file) then
        (let unique_filename = uuid4 E (uuid_calls w) @ ''_'' @ filename file;
             filepath = path_join UPLOAD_FOLDER unique_filename;
             w0 = w\<lparr>uuid_calls := Suc (uuid_calls w)\<rparr>
         in except_finally (filename file) filepath (batch_try E file filepath w0))
      else (Inr (Failed (display_name file) not_allowed), w))"

text \<open>
  \<^verbatim>\<open>for file in files:\<close> with the loop body as a parameter, since both batch endpoints
  run the same loop around different bodies; \<open>results\<close> is the list built so far.  An
  exception that leaves the body leaves the loop.
\<close>

fun for_each_file ::
  "(world \<Rightarrow> upload \<Rightarrow> (exn + outcome) \<times> world) \<Rightarrow> world \<Rightarrow> outcome list \<Rightarrow> upload list
     \<Rightarrow> (exn + outcome list) \<times> world" where
  "for_each_file body w results [] = (Inr results, w)"
| "for_each_file body w results (file # files) =
     (case body w file of
        (Inl e, w') \<Rightarrow> (Inl e, w')
      | (Inr out, w') \<Rightarrow> for_each_file body w' (results @ [out]) files)"

text \<open>
  What an endpoint answers: the JSON list of results, the JSON text of the single-file
  endpoint, a JSON error with its HTTP status, or an exception that leaves the handler.
\<close>

datatype response =
    Ok_results "outcome list"
  | Ok_text string
  | Http_error nat string
  | Unhandled exn

text \<open>
  The request is \<open>None\<close> when it has no part named \<^verbatim>\<open>files\<close>.  Creating the upload
  folder (lines 106--107) does not touch the files, and folders are not modelled.
\<close>

definition upload_and_ocr_batch ::
  "env \<Rightarrow> world \<Rightarrow> upload list option \<Rightarrow> response \<times> world" where
  "upload_and_ocr_batch E w request =
     (case request of
        None \<Rightarrow> (Http_error 400 ''No files part in the request'', w)
      | Some files \<Rightarrow>
          if files = [] \<or> list_all (\<lambda>file. filename file = '''') files
          then (Http_error 400 ''No files selected for uploading'', w)
          else (case for_each_file (batch_item E) w [] files of
                  (Inl e, w') \<Rightarrow> (Unhandled e, w')
                | (Inr results, w') \<Rightarrow> (Ok_results results, w')))"


section \<open>The augmented endpoint (\<^verbatim>\<open>upload_and_ocr_batch_augmented\<close>, lines 136--202)\<close>

definition is_space :: "char \<Rightarrow> bool" where
  "is_space c = (c \<in> set [CHR 0x09, CHR 0x0A, CHR 0x0B, CHR 0x0C, CHR 0x0D,
                           CHR 0x1C, CHR 0x1D, CHR 0x1E, CHR 0x1F, CHR 0x20, CHR 0x85, CHR 0xA0])"

text \<open>
  \<^verbatim>\<open>s.split()\<close>: the maximal runs of characters that are not white space; \<open>cur\<close> is
  the run being read.  \<open>is_space\<close> is \<^verbatim>\<open>str.isspace\<close> on the characters up to U+00FF,
  which is all that \<open>char\<close> holds.
\<close>

fun split_ws :: "string \<Rightarrow> string \<Rightarrow> string list" where
  "split_ws cur [] = (if cur = [] then [] else [cur])"
| "split_ws cur (c # cs) =
     (if is_space c
      then (if cur = [] then split_ws [] cs else cur # split_ws [] cs)
      else split_ws (cur @ [c]) cs)"

definition word_count :: "string \<Rightarrow> nat" where
  "word_count s = length (split_ws [] s)"

text \<open>
  Steps 2 and 3 of the \<^verbatim>\<open>try\<close> (lines 170--179): \<^verbatim>\<open>cv2.imread\<close>, which returns
  \<^verbatim>\<open>None\<close> for what it cannot read and does not raise, \<^verbatim>\<open>cv2.cvtColor\<close>,
  \<^verbatim>\<open>cv2.threshold\<close>, the detector on the array, and the reconstruction.
\<close>

definition augment :: "env \<Rightarrow> path \<Rightarrow> world \<Rightarrow> (raised + string) \<times> world" where
  "augment E filepath w =
     (let img = imread E (storage w filepath); w1 = log (Imread filepath) w; w2 = log CvtColor w1 in
      case cvtColor E img of
        Inl e \<Rightarrow> (Inl e, w2)
      | Inr gray_img \<Rightarrow>
          (let w3 = log Threshold w2 in
           case threshold E gray_img of
             Inl e \<Rightarrow> (Inl e, w3)
           | Inr augmented_img \<Rightarrow>
               (let w4 = log Ocr_array w3 in
                case ocr E (From_array augmented_img) of
                  Inl e \<Rightarrow> (Inl e, w4)
                | Inr augmented_result \<Rightarrow> (reconstruct augmented_result, w4))))"

text \<open>The body of the \<^verbatim>\<open>try\<close> (lines 161--192), up to the entry appended.\<close>

definition augmented_try :: "env \<Rightarrow> upload \<Rightarrow> path \<Rightarrow> world \<Rightarrow> (raised + outcome) \<times> world" where
  "augmented_try E file filepath w =
     (case save_file E file filepath w of
        (Inl e, w1) \<Rightarrow> (Inl e, w1)
      | (Inr u, w1) \<Rightarrow>
          (case ocr_file E filepath w1 of
             (Inl e, w2) \<Rightarrow> (Inl e, w2)
           | (Inr original_result, w2) \<Rightarrow>
               (case reconstruct original_result of
                  Inl e \<Rightarrow> (Inl e, w2)
                | Inr original_text \<Rightarrow>
                    (case augment E filepath w2 of
                       (Inl e, w3) \<Rightarrow> (Inl e, w3)
                     | (Inr augmented_text, w3) \<Rightarrow>
                         (Inr (Augmented (filename file) augmented_text original_text
                                 [(''Original'', word_count original_text),
                                  (''Grayscale + Threshold'', word_count augmented_text)]),
                          w3)))))"

text \<open>The body of the loop (lines 156--200).\<close>

definition augmented_item :: "env \<Rightarrow> world \<Rightarrow> upload \<Rightarrow> (exn + outcome) \<times> world" where
  "augmented_item E w file =
     (if truthy file \<and> allowed_file (filename file) then
        (let unique_filename = uuid4 E (uuid_calls w) @ ''_'' @ filename file;
             filepath = path_join UPLOAD_FOLDER unique_filename;
             w0 = w\<lparr>uuid_calls := Suc (uuid_calls w)\<rparr>
         in except_finally (filename file) filepath (augmented_try E file filepath w0))
      else (Inr (Failed (display_name file) not_allowed), w))"

definition upload_and_ocr_batch_augmented ::
  "env \<Rightarrow> world \<Rightarrow> upload list option \<Rightarrow> response \<times> world" where
  "upload_and_ocr_batch_augmented E w request =
     (case request of
        None \<Rightarrow> (Http_error 400 ''No files part in the request'', w)
      | Some files \<Rightarrow>
          if files = [] \<or> list_all (\<lambda>file. filename file = '''') files
          then (Http_error 400 ''No files selected for uploading'', w)
          else (case for_each_file (augmented_item E) w [] files of
                  (Inl e, w') \<Rightarrow> (Unhandled e, w')
                | (Inr results, w') \<Rightarrow> (Ok_results results, w')))"


section \<open>The single-file endpoint (\<^verbatim>\<open>upload_and_ocr\<close>, app.py lines 206--235)\<close>

text \<open>
  The request is \<open>None\<close> when it has no part named \<^verbatim>\<open>file\<close>.  The path is the folder
  joined with the name of the upload as it is, and \<^verbatim>\<open>file.save\<close> is called before the
  \<^verbatim>\<open>try\<close>: an exception of \<^verbatim>\<open>file.save\<close> leaves the handler, and the \<^verbatim>\<open>finally\<close>
  clause does not run for it.
\<close>

definition upload_and_ocr :: "env \<Rightarrow> world \<Rightarrow> upload option \<Rightarrow> response \<times> world" where
  "upload_and_ocr E w request =
     (case request of
        None \<Rightarrow> (Http_error 400 ''No file part in the request'', w)
      | Some file \<Rightarrow>
          if filename file = '''' then (Http_error 400 ''No file selected for uploading'', w)
          else if truthy file \<and> allowed_file (filename file) then
            (let filepath = path_join UPLOAD_FOLDER (filename file) in
             case save_file E file filepath w of
               (Inl e, w1) \<Rightarrow> (Unhandled (message e), w1)
             | (Inr u, w1) \<Rightarrow>
                 (case ocr_file E filepath w1 of
                    (Inl (Exception m), w2) \<Rightarrow>
                      (Http_error 500 (''An error occurred during OCR processing: '' @ m),
                       remove_if_exists filepath w2)
                  | (Inl (BaseException m), w2) \<Rightarrow> (Unhandled m, remove_if_exists filepath w2)
                  | (Inr result, w2) \<Rightarrow>
                      (case process_ocr_result result of
                         Inl e \<Rightarrow>
                           (Http_error 500 (''An error occurred during OCR processing: '' @ e),
                            remove_if_exists filepath w2)
                       | Inr formatted_text \<Rightarrow>
                           (Ok_text formatted_text, remove_if_exists filepath w2))))
          else (Http_error 400 not_allowed, w))"


section \<open>What one item gives, and the environments of the examples\<close>

text \<open>
  The path of the temporary file of an item processed in the state \<open>w\<close>.
\<close>

definition item_path :: "env \<Rightarrow> world \<Rightarrow> upload \<Rightarrow> path" where
  "item_path E w file = path_join UPLOAD_FOLDER (uuid4 E (uuid_calls w) @ ''_'' @ filename file)"

text \<open>
  The two variants of the augmented endpoint, as functions of the collaborators' answers:
  the detector on the saved file and the reconstruction (lines 166--167), and the
  preprocessing, the detector on the array and the reconstruction (lines 170--179), on the
  bytes stored at the path.
\<close>

definition identity_variant :: "env \<Rightarrow> upload \<Rightarrow> raised + string" where
  "identity_variant E file =
     (case ocr E (From_path (Some (content file))) of
        Inl e \<Rightarrow> Inl e
      | Inr result \<Rightarrow> reconstruct result)"

definition enhanced_variant :: "env \<Rightarrow> bytes option \<Rightarrow> raised + string" where
  "enhanced_variant E stored =
     (case cvtColor E (imread E stored) of
        Inl e \<Rightarrow> Inl e
      | Inr gray_img \<Rightarrow>
          (case threshold E gray_img of
             Inl e \<Rightarrow> Inl e
           | Inr augmented_img \<Rightarrow>
               (case ocr E (From_array augmented_img) of
                  Inl e \<Rightarrow> Inl e
                | Inr augmented_result \<Rightarrow> reconstruct augmented_result)))"

text \<open>
  What an exception raised in the \<^verbatim>\<open>try\<close> body becomes: an error entry when it is caught,
  the exception itself when it is not.
\<close>

fun caught :: "string \<Rightarrow> raised \<Rightarrow> exn + outcome" where
  "caught name (Exception m) = Inr (Failed name m)"
| "caught name (BaseException m) = Inl m"

text \<open>
  What the loop bodies give for one file, whatever the state: \<open>fst_batch_item\<close> and
  \<open>fst_augmented_item\<close> below.
\<close>

definition simple_outcome :: "env \<Rightarrow> upload \<Rightarrow> exn + outcome" where
  "simple_outcome E file =
     (if truthy file \<and> allowed_file (filename file) then
        (case file_save E file of
           Save_raised e left \<Rightarrow> caught (filename file) e
         | Saved \<Rightarrow>
             (case identity_variant E file of
                Inl e \<Rightarrow> caught (filename file) e
              | Inr formatted_text \<Rightarrow> Inr (Success (filename file) formatted_text)))
      else Inr (Failed (display_name file) not_allowed))"

definition augmented_outcome :: "env \<Rightarrow> upload \<Rightarrow> exn + outcome" where
  "augmented_outcome E file =
     (if truthy file \<and> allowed_file (filename file) then
        (case file_save E file of
           Save_raised e left \<Rightarrow> caught (filename file) e
         | Saved \<Rightarrow>
             (case identity_variant E file of
                Inl e \<Rightarrow> caught (filename file) e
              | Inr original_text \<Rightarrow>
                  (case enhanced_variant E (Some (content file)) of
                     Inl e \<Rightarrow> caught (filename file) e
                   | Inr augmented_text \<Rightarrow>
                       Inr (Augmented (filename file) augmented_text original_text
                              [(''Original'', word_count original_text),
                               (''Grayscale + Threshold'', word_count augmented_text)]))))
      else Inr (Failed (display_name file) not_allowed))"

text \<open>
  The collaborators raise nothing but exceptions that derive from \<^verbatim>\<open>Exception\<close>: no
  \<^verbatim>\<open>KeyboardInterrupt\<close>, no \<^verbatim>\<open>SystemExit\<close>.
\<close>

definition only_exceptions :: "env \<Rightarrow> bool" where
  "only_exceptions E =
     ((\<forall>file m left. file_save E file \<noteq> Save_raised (BaseException m) left)
      \<and> (\<forall>input m. ocr E input \<noteq> Inl (BaseException m))
      \<and> (\<forall>img m. cvtColor E img \<noteq> Inl (BaseException m))
      \<and> (\<forall>img m. threshold E img \<noteq> Inl (BaseException m)))"

text \<open>
  The state after an item whose file was at \<open>p\<close>: one identifier drawn, nothing stored at
  \<open>p\<close>, and the calls \<open>evs\<close> made.
\<close>

definition released :: "path \<Rightarrow> event list \<Rightarrow> world \<Rightarrow> world" where
  "released p evs w =
     w\<lparr>uuid_calls := Suc (uuid_calls w), storage := (storage w)(p := None),
       events := events w @ evs\<rparr>"

text \<open>
  Environments for the examples: a detection of the word Hello; collaborators that answer
  as given, with a \<^verbatim>\<open>cvtColor\<close> that raises on \<^verbatim>\<open>None\<close> as OpenCV does; a detector that
  reads every file; a detector that fails on the file whose content is \<open>bad\<close>; a
  detector that fails on every file; the state before any request; an upload with a given
  name.
\<close>

definition sample_result :: ocr_result where
  "sample_result = Some [Some [([[10, 20], [60, 20], [60, 40], [10, 40]], (''Hello'', 1))]]"

definition stub_env ::
  "save_outcome \<Rightarrow> (bytes option \<Rightarrow> raised + ocr_result) \<Rightarrow> image option
     \<Rightarrow> (raised + ocr_result) \<Rightarrow> env" where
  "stub_env saved on_path img on_array =
     \<lparr>uuid4 = (\<lambda>n. replicate (Suc n) CHR ''u''),
      file_save = (\<lambda>file. saved),
      ocr = (\<lambda>input. case input of From_path stored \<Rightarrow> on_path stored | From_array a \<Rightarrow> on_array),
      imread = (\<lambda>stored. img),
      cvtColor = (\<lambda>i. case i of None \<Rightarrow> Inl (Exception ''cvtColor: empty image'') | Some a \<Rightarrow> Inr a),
      threshold = (\<lambda>a. Inr a)\<rparr>"

definition reads_all :: "bytes option \<Rightarrow> raised + ocr_result" where
  "reads_all stored = Inr sample_result"

definition fails_on_bad :: "bytes option \<Rightarrow> raised + ocr_result" where
  "fails_on_bad stored =
     (if stored = Some ''bad'' then Inl (Exception ''detector failed'') else Inr sample_result)"


definition empty_world :: world where
  "empty_world = \<lparr>storage = (\<lambda>p. None), uuid_calls = 0, events = []\<rparr>"

definition upload_named :: "string \<Rightarrow> upload" where
  "upload_named name = \<lparr>filename = name, content = ''bytes''\<rparr>"


section \<open>Properties of the line reconstruction\<close>

subsection \<open>The loop of the source computes the lines of the clusterer\<close>

lemma walk_not_Nil: "walk cur rest \<noteq> []"
  by (induction rest arbitrary: cur) auto

lemma group_lines_walk:
  "group_lines cur acc rest =
     (acc @ map format_line (butlast (walk cur rest)), last (walk cur rest))"
  by (induction rest arbitrary: cur acc) (auto simp: line_threshold_def walk_not_Nil)

lemma concat_walk: "concat (walk cur rest) = cur @ rest"
  by (induction rest arbitrary: cur) auto

lemma walk_nonempty: "cur \<noteq> [] \<Longrightarrow> [] \<notin> set (walk cur rest)"
  by (induction rest arbitrary: cur) auto

lemma hd_walk: "cur \<noteq> [] \<Longrightarrow> hd (hd (walk cur rest)) = hd cur"
  by (induction rest arbitrary: cur) auto

lemma chained_snoc:
  "chained cur \<Longrightarrow> cur \<noteq> [] \<Longrightarrow> abs (y_coord f - y_coord (last cur)) \<le> 18 \<Longrightarrow> chained (cur @ [f])"
  by (induction cur rule: chained.induct) auto

lemma chained_walk: "chained cur \<Longrightarrow> cur \<noteq> [] \<Longrightarrow> l \<in> set (walk cur rest) \<Longrightarrow> chained l"
proof (induction rest arbitrary: cur)
  case Nil
  then show ?case by simp
next
  case (Cons f fs)
  show ?case
  proof (cases "abs (y_coord f - y_coord (last cur)) \<le> 18")
    case True
    have "chained (cur @ [f])" using Cons.prems True by (simp add: chained_snoc)
    moreover have "l \<in> set (walk (cur @ [f]) fs)" using Cons.prems True by simp
    ultimately show ?thesis using Cons.IH [of "cur @ [f]"] by simp
  next
    case False
    then have "l = cur \<or> l \<in> set (walk [f] fs)" using Cons.prems by simp
    then show ?thesis using Cons.IH [of "[f]"] Cons.prems by auto
  qed
qed

lemma separated_Cons:
  "separated (k # ls) = (ls = [] \<or> (abs (y_coord (hd (hd ls)) - y_coord (last k)) > 18 \<and> separated ls))"
  by (cases ls) auto

lemma separated_walk: "cur \<noteq> [] \<Longrightarrow> separated (walk cur rest)"
proof (induction rest arbitrary: cur)
  case Nil
  then show ?case by simp
next
  case (Cons f fs)
  show ?case
  proof (cases "abs (y_coord f - y_coord (last cur)) \<le> 18")
    case True
    then show ?thesis using Cons by simp
  next
    case False
    then show ?thesis using Cons.IH [of "[f]"]
      by (simp add: separated_Cons walk_not_Nil hd_walk)
  qed
qed

lemma formatted_lines_clusterer: "formatted_lines fs = map format_line (clusterer fs)"
proof (cases "sort_key sort_item_key fs")
  case Nil
  then show ?thesis by (simp add: formatted_lines_def clusterer_def sort_item_key_def [abs_def])
next
  case (Cons f rest)
  have ne: "last (walk [f] rest) \<noteq> []"
    using walk_nonempty [of "[f]" rest] walk_not_Nil [of "[f]" rest] last_in_set by fastforce
  have "map format_line (butlast (walk [f] rest)) @ [format_line (last (walk [f] rest))]
        = map format_line (butlast (walk [f] rest) @ [last (walk [f] rest)])" by simp
  also have "\<dots> = map format_line (walk [f] rest)"
    by (simp add: walk_not_Nil)
  finally show ?thesis using Cons ne
    by (simp add: formatted_lines_def clusterer_def sort_item_key_def [abs_def] group_lines_walk)
qed


lemma chained_append_Cons:
  "chained (cur @ f # r) \<Longrightarrow> cur \<noteq> [] \<Longrightarrow> abs (y_coord f - y_coord (last cur)) \<le> 18"
  by (induction cur rule: chained.induct) auto

lemma walk_unique:
  "cur \<noteq> [] \<Longrightarrow> rest = l1 @ concat ls \<Longrightarrow> chained (cur @ l1) \<Longrightarrow>
   \<forall>l\<in>set ls. l \<noteq> [] \<and> chained l \<Longrightarrow> separated ((cur @ l1) # ls) \<Longrightarrow>
   walk cur rest = (cur @ l1) # ls"
proof (induction rest arbitrary: cur l1 ls)
  case Nil
  then have "l1 = []" and "concat ls = []" by simp_all
  moreover have "ls = []"
  proof (cases ls)
    case Nil
    then show ?thesis .
  next
    case (Cons l ls')
    then show ?thesis using Nil.prems(4) \<open>concat ls = []\<close> by simp
  qed
  ultimately show ?case by simp
next
  case (Cons f fs)
  show ?case
  proof (cases l1)
    case Nil
    then have cc: "concat ls = f # fs" using Cons.prems(2) by simp
    then obtain l2 ls' where ls: "ls = l2 # ls'" by (cases ls) auto
    then have "l2 \<noteq> []" using Cons.prems(4) by simp
    then obtain r where l2: "l2 = f # r" using cc ls by (cases l2) auto
    have far: "\<not> abs (y_coord f - y_coord (last cur)) \<le> 18"
      using Cons.prems(5) Nil ls l2 by simp
    have "walk [f] fs = ([f] @ r) # ls'"
    proof (rule Cons.IH)
      show "[f] \<noteq> []" by simp
      show "fs = r @ concat ls'" using cc ls l2 by simp
      show "chained ([f] @ r)" using Cons.prems(4) ls l2 by simp
      show "\<forall>l\<in>set ls'. l \<noteq> [] \<and> chained l" using Cons.prems(4) ls by simp
      show "separated (([f] @ r) # ls')" using Cons.prems(5) Nil ls l2 by simp
    qed
    then show ?thesis using far Nil ls l2 by simp
  next
    case (Cons g l1')
    then have g: "g = f" and fs: "fs = l1' @ concat ls" using Cons.prems(2) by simp_all
    have near: "abs (y_coord f - y_coord (last cur)) \<le> 18"
      using chained_append_Cons [of cur f l1'] Cons.prems(1,3) Cons g by simp
    have "walk (cur @ [f]) fs = ((cur @ [f]) @ l1') # ls"
    proof (rule Cons.IH)
      show "cur @ [f] \<noteq> []" by simp
      show "fs = l1' @ concat ls" by (rule fs)
      show "chained ((cur @ [f]) @ l1')" using Cons.prems(3) Cons g by simp
      show "\<forall>l\<in>set ls. l \<noteq> [] \<and> chained l" by (rule Cons.prems(4))
      show "separated (((cur @ [f]) @ l1') # ls)" using Cons.prems(5) Cons g by simp
    qed
    then show ?thesis using near Cons g by simp
  qed
qed

lemma clusterer_unique:
  assumes "concat ls = sort_key sort_item_key fs"
    and "\<forall>l\<in>set ls. l \<noteq> [] \<and> chained l" and "separated ls"
  shows "ls = clusterer fs"
proof (cases "sort_key sort_item_key fs")
  case Nil
  then have "concat ls = []" using assms(1) by simp
  then have "ls = []" using assms(2) by (cases ls) auto
  then show ?thesis using Nil by (simp add: clusterer_def sort_item_key_def [abs_def])
next
  case (Cons f rest)
  then obtain l ls' where ls: "ls = l # ls'" using assms(1) by (cases ls) auto
  then have "l \<noteq> []" using assms(2) by simp
  then obtain r where l: "l = f # r" using assms(1) ls Cons by (cases l) auto
  have "walk [f] rest = ([f] @ r) # ls'"
  proof (rule walk_unique)
    show "[f] \<noteq> []" by simp
    show "rest = r @ concat ls'" using assms(1) ls l Cons by simp
    show "chained ([f] @ r)" using assms(2) ls l by simp
    show "\<forall>l\<in>set ls'. l \<noteq> [] \<and> chained l" using assms(2) ls by simp
    show "separated (([f] @ r) # ls')" using assms(3) ls l by simp
  qed
  then show ?thesis using Cons ls l by (simp add: clusterer_def sort_item_key_def [abs_def])
qed

lemma clusterer_drift:
  assumes "y_coord a = 100" "y_coord b = 115" "y_coord c = 130" "mset fs = {#a, b, c#}"
  shows "clusterer fs = [[a, b, c]]"
proof -
  have m: "mset fs = mset [a, b, c]" using assms(4) by simp
  have "set fs = {a, b, c}" using mset_eq_setD [OF m] by simp
  then have "inj_on sort_item_key (set fs)"
    using assms(1-3) by (auto simp: inj_on_def sort_item_key_def)
  moreover have "sorted (map sort_item_key [a, b, c])"
    using assms(1-3) by (simp add: sort_item_key_def less_eq_prod_def)
  ultimately have "sort_key sort_item_key fs = [a, b, c]"
    using m by (rule sort_key_inj_key_eq [rotated -1, rotated -1])
  then show ?thesis using assms(1-3)
    by (simp add: clusterer_def sort_item_key_def [abs_def])
qed

lemma clusterer_Nil: "sort_key sort_item_key fs = [] \<Longrightarrow> clusterer fs = []"
  by (simp add: clusterer_def sort_item_key_def [abs_def])

lemma clusterer_Cons: "sort_key sort_item_key fs = f # rest \<Longrightarrow> clusterer fs = walk [f] rest"
  by (simp add: clusterer_def sort_item_key_def [abs_def])

lemma concat_clusterer: "concat (clusterer fs) = sort_key sort_item_key fs"
proof (cases "sort_key sort_item_key fs")
  case Nil
  then show ?thesis by (simp add: clusterer_Nil)
next
  case (Cons f rest)
  then show ?thesis by (simp add: clusterer_Cons concat_walk)
qed

lemma clusterer_lines: "l \<in> set (clusterer fs) \<Longrightarrow> l \<noteq> [] \<and> chained l"
proof (cases "sort_key sort_item_key fs")
  case Nil
  assume "l \<in> set (clusterer fs)"
  then show ?thesis using Nil by (simp add: clusterer_Nil)
next
  case (Cons f rest)
  assume "l \<in> set (clusterer fs)"
  then have l: "l \<in> set (walk [f] rest)" using Cons by (simp add: clusterer_Cons)
  have "l \<noteq> []" using walk_nonempty [of "[f]" rest] l by auto
  moreover have "chained l" using chained_walk [of "[f]" l rest] l by simp
  ultimately show ?thesis by simp
qed

lemma separated_clusterer: "separated (clusterer fs)"
proof (cases "sort_key sort_item_key fs")
  case Nil
  then show ?thesis by (simp add: clusterer_Nil)
next
  case (Cons f rest)
  then show ?thesis by (simp add: clusterer_Cons separated_walk)
qed


lemma format_coordinates_clusterer:
  "format_coordinates fs = join [CHR 0x0A] (map format_line (clusterer fs))"
proof (cases "sort_key sort_item_key fs")
  case Nil
  then show ?thesis by (simp add: format_coordinates_def clusterer_Nil)
next
  case (Cons f rest)
  then show ?thesis by (simp add: format_coordinates_def formatted_lines_clusterer)
qed

lemma join_append:
  "ts \<noteq> [] \<Longrightarrow> us \<noteq> [] \<Longrightarrow> join sep (ts @ us) = join sep ts @ sep @ join sep us"
proof (induction sep ts rule: join.induct)
  case (2 sep s)
  then show ?case by (cases us) simp_all
qed simp_all

lemma length_join:
  "ts \<noteq> [] \<Longrightarrow> length (join sep ts) = sum_list (map length ts) + length sep * (length ts - 1)"
  by (induction sep ts rule: join.induct) simp_all

lemma item_coord_well_formed:
  assumes "well_formed_box (fst item)"
  shows "\<exists>c. item_coord item = Inr c \<and> item_text c = fst (snd item)"
proof -
  have "0 < length (fst item)" "2 < length (fst item)"
    "0 < length (fst item ! 0)" "1 < length (fst item ! 0)" "1 < length (fst item ! 2)"
    using assms by (auto simp add: well_formed_box_def)
  then show ?thesis by (simp add: item_coord_def getitem_def Let_def)
qed

lemma text_coordinates_well_formed:
  "\<forall>item\<in>set items. well_formed_box (fst item) \<Longrightarrow>
   \<exists>tcs. text_coordinates acc items = Inr (acc @ tcs) \<and> map item_text tcs = map (fst \<circ> snd) items"
proof (induction items arbitrary: acc)
  case Nil
  then show ?case by simp
next
  case (Cons item items)
  obtain c where c: "item_coord item = Inr c" "item_text c = fst (snd item)"
    using item_coord_well_formed [of item] Cons.prems by auto
  obtain tcs where t: "text_coordinates (acc @ [c]) items = Inr ((acc @ [c]) @ tcs)"
      "map item_text tcs = map (fst \<circ> snd) items"
    using Cons.IH [of "acc @ [c]"] Cons.prems by auto
  have "text_coordinates acc (item # items) = Inr (acc @ (c # tcs))" using c t by simp
  moreover have "map item_text (c # tcs) = map (fst \<circ> snd) (item # items)" using c t by simp
  ultimately show ?case by blast
qed

lemma mset_line_texts: "mset (line_texts l) = image_mset item_text (mset l)"
  by (simp add: line_texts_def)

lemma mset_concat_line_texts:
  "mset (concat (map line_texts ls)) = image_mset item_text (mset (concat ls))"
  by (induction ls) (simp_all add: mset_line_texts)

lemma format_line_line_texts: "format_line l = join '' '' (line_texts l)"
  by (simp add: format_line_def line_texts_def)


subsection \<open>Pixel coordinates, and reading the output back\<close>

lemma split_on_append:
  "sep \<notin> set t \<Longrightarrow> split_on sep cur (t @ rest) = split_on sep (cur @ t) rest"
  by (induction t arbitrary: cur) auto

lemma split_on_join:
  "ts \<noteq> [] \<Longrightarrow> \<forall>t\<in>set ts. sep \<notin> set t \<Longrightarrow> split_on sep cur (join [sep] ts) = (cur @ hd ts) # tl ts"
proof (induction "[sep]" ts arbitrary: cur rule: join.induct)
  case 1
  then show ?case by simp
next
  case (2 s)
  then show ?case using split_on_append [of sep s cur "[]"] by simp
next
  case (3 s t ts)
  have "split_on sep cur (s @ sep # join [sep] (t # ts)) = split_on sep (cur @ s) (sep # join [sep] (t # ts))"
    using 3(3) by (simp add: split_on_append)
  also have "\<dots> = (cur @ s) # split_on sep [] (join [sep] (t # ts))" by simp
  also have "\<dots> = (cur @ s) # t # ts" using 3(1) [of "[]"] 3(3) by simp
  finally show ?case by simp
qed

lemma split_join: "ts \<noteq> [] \<Longrightarrow> \<forall>t\<in>set ts. sep \<notin> set t \<Longrightarrow> split_on sep [] (join [sep] ts) = ts"
  using split_on_join [of ts sep "[]"] by simp

lemma set_join: "set (join sep ts) \<subseteq> set sep \<union> \<Union> (set ` set ts)"
  by (induction sep ts rule: join.induct) auto

lemma length_join_plus:
  "ts \<noteq> [] \<Longrightarrow> length (join sep ts) + length sep = sum_list (map length ts) + length sep * length ts"
  by (induction sep ts rule: join.induct) (auto simp add: algebra_simps)

lemma pixel_anchor: "pixel a \<Longrightarrow> pixel b \<Longrightarrow> exact_anchor ((a + b) / 2)"
proof -
  assume a: "pixel a" and b: "pixel b"
  have fa: "of_int \<lfloor>a\<rfloor> = a" and ba: "abs a \<le> 2 ^ 50" using a unfolding pixel_def by blast+
  have fb: "of_int \<lfloor>b\<rfloor> = b" and bb: "abs b \<le> 2 ^ 50" using b unfolding pixel_def by blast+
  have s: "a + b = of_int (\<lfloor>a\<rfloor> + \<lfloor>b\<rfloor>)" using fa fb by (simp only: of_int_add)
  have f: "of_int \<lfloor>a + b\<rfloor> = a + b" using s by (metis floor_of_int)
  have e: "2 * ((a + b) / 2) = a + b" by simp
  have i: "of_int \<lfloor>2 * ((a + b) / 2)\<rfloor> = 2 * ((a + b) / 2)" unfolding e by (rule f)
  have "abs (a + b) \<le> abs a + abs b" by (rule abs_triangle_ineq)
  then have "abs (a + b) \<le> 2 * 2 ^ 50" using ba bb by linarith
  then have "abs ((a + b) / 2) \<le> 2 ^ 50" by simp
  then show ?thesis using i unfolding exact_anchor_def by blast
qed


lemma exact_anchor_difference:
  assumes "exact_anchor a" and "exact_anchor b"
  shows "of_int \<lfloor>2 * (a - b)\<rfloor> = 2 * (a - b) \<and> abs (a - b) \<le> 2 ^ 51"
proof -
  have fa: "of_int \<lfloor>2 * a\<rfloor> = 2 * a" and ba: "abs a \<le> 2 ^ 50"
    using assms(1) unfolding exact_anchor_def by blast+
  have fb: "of_int \<lfloor>2 * b\<rfloor> = 2 * b" and bb: "abs b \<le> 2 ^ 50"
    using assms(2) unfolding exact_anchor_def by blast+
  have "2 * a - 2 * b = of_int (\<lfloor>2 * a\<rfloor> - \<lfloor>2 * b\<rfloor>)" using fa fb by (simp only: of_int_diff)
  then have "of_int \<lfloor>2 * a - 2 * b\<rfloor> = 2 * a - 2 * b" by (metis floor_of_int)
  moreover have e: "2 * (a - b) = 2 * a - 2 * b" by (simp add: algebra_simps)
  ultimately have i: "of_int \<lfloor>2 * (a - b)\<rfloor> = 2 * (a - b)" by (simp only: e)
  have "abs (a - b) \<le> abs a + abs b" by (rule abs_triangle_ineq4)
  then have "abs (a - b) \<le> 2 ^ 51" using ba bb by simp
  then show ?thesis using i by blast
qed

lemma item_coord_pixel:
  assumes "well_formed_box (fst item)" and "pixel_box (fst item)"
  shows "\<exists>c. item_coord item = Inr c \<and> item_text c = fst (snd item) \<and> exact_anchor (y_coord c)"
proof -
  have l: "0 < length (fst item)" "2 < length (fst item)"
    "0 < length (fst item ! 0)" "1 < length (fst item ! 0)" "1 < length (fst item ! 2)"
    using assms(1) by (auto simp add: well_formed_box_def)
  have p: "\<And>i j. i < length (fst item) \<Longrightarrow> j < length (fst item ! i) \<Longrightarrow> pixel (fst item ! i ! j)"
    using assms(2) by (simp add: pixel_box_def list_all_length)
  have "pixel (fst item ! 0 ! 1)" "pixel (fst item ! 2 ! 1)" using l p by simp_all
  then have "exact_anchor ((fst item ! 0 ! 1 + fst item ! 2 ! 1) / 2)" by (rule pixel_anchor)
  then show ?thesis using l by (simp add: item_coord_def getitem_def Let_def)
qed

lemma text_coordinates_pixel:
  "\<forall>item\<in>set items. well_formed_box (fst item) \<and> pixel_box (fst item) \<Longrightarrow>
   \<exists>tcs. text_coordinates acc items = Inr (acc @ tcs) \<and> map item_text tcs = map (fst \<circ> snd) items
      \<and> (\<forall>f\<in>set tcs. exact_anchor (y_coord f))"
proof (induction items arbitrary: acc)
  case Nil
  then show ?case by simp
next
  case (Cons item items)
  obtain c where c: "item_coord item = Inr c" "item_text c = fst (snd item)" "exact_anchor (y_coord c)"
    using item_coord_pixel [of item] Cons.prems by auto
  obtain tcs where t: "text_coordinates (acc @ [c]) items = Inr ((acc @ [c]) @ tcs)"
      "map item_text tcs = map (fst \<circ> snd) items" "\<forall>f\<in>set tcs. exact_anchor (y_coord f)"
    using Cons.IH [of "acc @ [c]"] Cons.prems by auto
  have "text_coordinates acc (item # items) = Inr (acc @ (c # tcs))" using c t by simp
  moreover have "map item_text (c # tcs) = map (fst \<circ> snd) (item # items)" using c t by simp
  moreover have "\<forall>f\<in>set (c # tcs). exact_anchor (y_coord f)" using c t by simp
  ultimately show ?case by blast
qed

lemma clusterer_not_Nil: "fs \<noteq> [] \<Longrightarrow> clusterer fs \<noteq> []"
proof -
  assume "fs \<noteq> []"
  then have "sort_key sort_item_key fs \<noteq> []" by (metis length_sort length_0_conv)
  then obtain f rest where "sort_key sort_item_key fs = f # rest" by (cases "sort_key sort_item_key fs") auto
  then show ?thesis using clusterer_Cons [of fs f rest] walk_not_Nil [of "[f]" rest] by simp
qed

lemma line_texts_not_Nil: "l \<noteq> [] \<Longrightarrow> line_texts l \<noteq> []"
proof -
  assume "l \<noteq> []"
  then have "length (line_texts l) \<noteq> 0" by (simp add: line_texts_def)
  then show ?thesis by auto
qed

lemma set_line_texts: "set (line_texts l) = item_text ` set l"
  by (simp add: line_texts_def)

lemma split_output:
  assumes ne: "ls \<noteq> []" and nl: "[] \<notin> set ls"
    and free: "\<forall>l\<in>set ls. \<forall>f\<in>set l. CHR '' '' \<notin> set (item_text f) \<and> CHR 0x0A \<notin> set (item_text f)"
  shows "concat (map (split_on CHR '' '' []) (split_on (CHR 0x0A) [] (join [CHR 0x0A] (map (\<lambda>l. join '' '' (line_texts l)) ls))))
           = concat (map line_texts ls)"
proof -
  let ?lines = "map (\<lambda>l. join '' '' (line_texts l)) ls"
  have "\<forall>t\<in>set ?lines. CHR 0x0A \<notin> set t"
  proof
    fix t assume "t \<in> set ?lines"
    then obtain l where l: "l \<in> set ls" "t = join '' '' (line_texts l)" by auto
    have "set t \<subseteq> set '' '' \<union> \<Union> (set ` set (line_texts l))" unfolding l(2) by (rule set_join)
    moreover have "CHR 0x0A \<notin> \<Union> (set ` set (line_texts l))"
      using free l(1) by (auto simp add: set_line_texts)
    ultimately show "CHR 0x0A \<notin> set t" by auto
  qed
  moreover have "?lines \<noteq> []" using ne by simp
  ultimately have s: "split_on (CHR 0x0A) [] (join [CHR 0x0A] ?lines) = ?lines" by (rule split_join [rotated])
  have e: "split_on CHR '' '' [] (join '' '' (line_texts l)) = line_texts l" if l: "l \<in> set ls" for l
  proof -
    have "line_texts l \<noteq> []" using l nl line_texts_not_Nil [of l] by auto
    moreover have "\<forall>t\<in>set (line_texts l). CHR '' '' \<notin> set t"
      using free l by (auto simp add: set_line_texts)
    ultimately have "split_on CHR '' '' [] (join [CHR '' ''] (line_texts l)) = line_texts l"
      by (rule split_join)
    then show ?thesis by simp
  qed
  have "map (split_on CHR '' '' []) ?lines
          = map (\<lambda>l. split_on CHR '' '' [] (join '' '' (line_texts l))) ls"
    by (simp add: comp_def)
  also have "\<dots> = map line_texts ls" by (rule map_cong [OF refl]) (rule e)
  finally have m: "map (split_on CHR '' '' []) ?lines = map line_texts ls" .
  show ?thesis by (simp only: s m)
qed

lemma length_output:
  assumes ne: "ls \<noteq> []" and nl: "[] \<notin> set ls"
  shows "length (join [CHR 0x0A] (map (\<lambda>l. join '' '' (line_texts l)) ls)) + 1
           = sum_list (map length (concat (map line_texts ls))) + length (concat ls)"
proof -
  let ?lines = "map (\<lambda>l. join '' '' (line_texts l)) ls"
  have "?lines \<noteq> []" using ne by simp
  then have a: "length (join [CHR 0x0A] ?lines) + 1 = sum_list (map length ?lines) + length ls"
    using length_join_plus [of ?lines "[CHR 0x0A]"] by simp
  have "sum_list (map length (map (\<lambda>l. join '' '' (line_texts l)) ks)) + length ks
          = sum_list (map length (concat (map line_texts ks))) + length (concat ks)"
    if "[] \<notin> set ks" for ks
    using that
  proof (induction ks)
    case Nil
    then show ?case by simp
  next
    case (Cons k ks)
    have "line_texts k \<noteq> []" using Cons.prems line_texts_not_Nil [of k] by auto
    then have "length (join '' '' (line_texts k)) + 1 = sum_list (map length (line_texts k)) + length k"
      using length_join_plus [of "line_texts k" "'' ''"] by (simp add: line_texts_def)
    then show ?case using Cons by simp
  qed
  then show ?thesis using a nl by simp
qed


lemma sum_list_length_mset:
  "mset xs = mset ys \<Longrightarrow> sum_list (map length xs) = sum_list (map length ys)"
proof -
  assume "mset xs = mset ys"
  then have "mset (map length xs) = mset (map length ys)" by simp
  then have "sum_mset (mset (map length xs)) = sum_mset (mset (map length ys))" by (rule arg_cong)
  then show ?thesis by (simp only: sum_mset_sum_list)
qed


subsection \<open>The claims about the reconstruction\<close>

text \<open>
  C1.  For fragments whose anchors are exact (multiples of \<open>1/2\<close> of magnitude at most
  \<open>2^50\<close>, the anchors of boxes with pixel coordinates, on which the subtraction and the
  comparison of line 73 are exact in binary64), the lines that the loop of the source
  formats are those of the clusterer: the fragments sorted by (anchorY, anchorX) ascending,
  cut into consecutive lines, so that within a line every fragment is within 18 of the
  fragment added just before it, and the first fragment of every next line is more than 18
  away from the last fragment of the line before; no other cutting of the sorted sequence
  has these two properties, so a fragment joins the open line if and only if its distance
  to the last fragment added is at most 18.  Fragments with anchorY 100, 115 and 130, given
  in any order, form one line.  The difference of two such anchors is a multiple of \<open>1/2\<close>
  of magnitude at most \<open>2^51\<close>, a number that binary64 holds exactly.
\<close>

theorem clusterer_chains_stepwise:
  assumes "\<forall>f\<in>set fs. exact_anchor (y_coord f)"
  shows "formatted_lines fs = map format_line (clusterer fs)
   \<and> concat (clusterer fs) = sort_key sort_item_key fs
   \<and> sorted (map sort_item_key (concat (clusterer fs)))
   \<and> mset (concat (clusterer fs)) = mset fs
   \<and> (\<forall>l\<in>set (clusterer fs). l \<noteq> [] \<and> chained l)
   \<and> separated (clusterer fs)
   \<and> (\<forall>ls. concat ls = sort_key sort_item_key fs \<and> (\<forall>l\<in>set ls. l \<noteq> [] \<and> chained l)
          \<and> separated ls \<longrightarrow> ls = clusterer fs)
   \<and> (\<forall>a b c. y_coord a = 100 \<and> y_coord b = 115 \<and> y_coord c = 130 \<and> mset fs = {#a, b, c#}
          \<longrightarrow> clusterer fs = [[a, b, c]])
   \<and> (\<forall>f\<in>set fs. \<forall>g\<in>set fs.
          of_int \<lfloor>2 * (y_coord f - y_coord g)\<rfloor> = 2 * (y_coord f - y_coord g)
        \<and> abs (y_coord f - y_coord g) \<le> 2 ^ 51)"
proof (intro conjI allI impI ballI)
  show "formatted_lines fs = map format_line (clusterer fs)" by (rule formatted_lines_clusterer)
  show "concat (clusterer fs) = sort_key sort_item_key fs" by (rule concat_clusterer)
  show "sorted (map sort_item_key (concat (clusterer fs)))" by (simp add: concat_clusterer)
  show "mset (concat (clusterer fs)) = mset fs" by (simp add: concat_clusterer)
  show "l \<noteq> []" if "l \<in> set (clusterer fs)" for l using clusterer_lines [OF that] by simp
  show "chained l" if "l \<in> set (clusterer fs)" for l using clusterer_lines [OF that] by simp
  show "separated (clusterer fs)" by (rule separated_clusterer)
  show "ls = clusterer fs"
    if "concat ls = sort_key sort_item_key fs \<and> (\<forall>l\<in>set ls. l \<noteq> [] \<and> chained l) \<and> separated ls"
    for ls using that clusterer_unique [of ls fs] by blast
  show "clusterer fs = [[a, b, c]]"
    if "y_coord a = 100 \<and> y_coord b = 115 \<and> y_coord c = 130 \<and> mset fs = {#a, b, c#}"
    for a b c using that clusterer_drift [of a b c fs] by blast
  show "of_int \<lfloor>2 * (y_coord f - y_coord g)\<rfloor> = 2 * (y_coord f - y_coord g)"
    if "f \<in> set fs" "g \<in> set fs" for f g
    using that assms exact_anchor_difference [of "y_coord f" "y_coord g"] by blast
  show "abs (y_coord f - y_coord g) \<le> 2 ^ 51"
    if "f \<in> set fs" "g \<in> set fs" for f g
    using that assms exact_anchor_difference [of "y_coord f" "y_coord g"] by blast
qed

theorem clusterer_chains_stepwise_witness:
  "clusterer [\<lparr>item_text = ''c'', y_coord = 130, x_coord = 0\<rparr>,
              \<lparr>item_text = ''a'', y_coord = 100, x_coord = 5\<rparr>,
              \<lparr>item_text = ''b'', y_coord = 115, x_coord = 3\<rparr>]
   = [[\<lparr>item_text = ''a'', y_coord = 100, x_coord = 5\<rparr>,
       \<lparr>item_text = ''b'', y_coord = 115, x_coord = 3\<rparr>,
       \<lparr>item_text = ''c'', y_coord = 130, x_coord = 0\<rparr>]]
   \<and> formatted_lines [\<lparr>item_text = ''c'', y_coord = 130, x_coord = 0\<rparr>,
              \<lparr>item_text = ''a'', y_coord = 100, x_coord = 5\<rparr>,
              \<lparr>item_text = ''b'', y_coord = 115, x_coord = 3\<rparr>] = [''c b a'']"
proof -
  let ?a = "\<lparr>item_text = ''a'', y_coord = 100, x_coord = 5\<rparr>"
  let ?b = "\<lparr>item_text = ''b'', y_coord = 115, x_coord = 3\<rparr>"
  let ?c = "\<lparr>item_text = ''c'', y_coord = 130, x_coord = 0\<rparr>"
  have h: "\<forall>f\<in>set [?c, ?a, ?b]. exact_anchor (y_coord f)" by (simp add: exact_anchor_def)
  note t = clusterer_chains_stepwise [OF h]
  have m: "mset [?c, ?a, ?b] = {#?a, ?b, ?c#}" by (simp add: add_mset_commute)
  from t have "\<forall>a b c. y_coord a = 100 \<and> y_coord b = 115 \<and> y_coord c = 130
       \<and> mset [?c, ?a, ?b] = {#a, b, c#} \<longrightarrow> clusterer [?c, ?a, ?b] = [[a, b, c]]" by (elim conjE)
  then have "y_coord ?a = 100 \<and> y_coord ?b = 115 \<and> y_coord ?c = 130
       \<and> mset [?c, ?a, ?b] = {#?a, ?b, ?c#} \<longrightarrow> clusterer [?c, ?a, ?b] = [[?a, ?b, ?c]]"
    by (elim allE)
  then have cl: "clusterer [?c, ?a, ?b] = [[?a, ?b, ?c]]" using m by simp
  moreover from t have "formatted_lines [?c, ?a, ?b] = map format_line (clusterer [?c, ?a, ?b])"
    by (elim conjE)
  ultimately show ?thesis by (simp add: format_line_def)
qed

text \<open>
  C8.  A detector result with no fragments (\<^verbatim>\<open>None\<close>, no page, a first page that is
  \<^verbatim>\<open>None\<close> or empty) is reconstructed as the sentinel ``No text found.'', which is
  returned normally: it is neither the empty string nor an exception.
\<close>

theorem empty_result_gives_sentinel:
  "result = None \<or> result = Some [] \<or> result = Some (None # pages) \<or> result = Some (Some [] # pages)
   \<Longrightarrow> process_ocr_result result = Inr ''No text found.''
       \<and> process_ocr_result result \<noteq> Inr ''''
       \<and> (\<forall>e. process_ocr_result result \<noteq> Inl e)"
  by (auto simp add: process_ocr_result_def no_text_found_def)

theorem empty_result_gives_sentinel_witness:
  "process_ocr_result (Some [Some []]) = Inr ''No text found.''
   \<and> process_ocr_result (Some [None]) = Inr ''No text found.''
   \<and> process_ocr_result None = Inr ''No text found.''
   \<and> process_ocr_result (Some []) = Inr ''No text found.''"
  using empty_result_gives_sentinel [of "Some [Some []]" "[]"]
    empty_result_gives_sentinel [of "Some [None]" "[]"]
    empty_result_gives_sentinel [of None "[]"]
    empty_result_gives_sentinel [of "Some []" "[]"]
  by simp

text \<open>
  C9.  The text returned for a list of fragments is the lines of the clusterer, in the
  clusterer's order, joined by a newline; the text of a line is the texts of its fragments,
  sorted by anchorX ascending with a stable sort (equal anchorX keep their order), joined
  by one space.  Joining puts exactly one separator between two neighbours whatever the
  texts are, so an empty text leaves two consecutive spaces.
\<close>

theorem formatter_sorts_and_joins:
  "format_coordinates fs
     = join [CHR 0x0A] (map (\<lambda>l. join '' '' (map item_text (sort_key x_coord l))) (clusterer fs))
   \<and> (\<forall>l\<in>set (clusterer fs).
         sorted (map x_coord (sort_key x_coord l)) \<and> mset (sort_key x_coord l) = mset l
         \<and> (\<forall>k. filter (\<lambda>f. x_coord f = k) (sort_key x_coord l) = filter (\<lambda>f. x_coord f = k) l))
   \<and> (\<forall>sep ts us. ts \<noteq> [] \<and> us \<noteq> [] \<longrightarrow> join sep (ts @ us) = join sep ts @ sep @ join sep us)
   \<and> (\<forall>sep ts. ts \<noteq> [] \<longrightarrow>
         length (join sep ts) = sum_list (map length ts) + length sep * (length ts - 1))
   \<and> join '' '' [''a'', '''', ''b''] = ''a  b''"
proof (intro conjI allI impI ballI)
  have fl: "format_line = (\<lambda>l. join '' '' (map item_text (sort_key x_coord l)))"
    by (rule ext) (simp add: format_line_def)
  show "format_coordinates fs
     = join [CHR 0x0A] (map (\<lambda>l. join '' '' (map item_text (sort_key x_coord l))) (clusterer fs))"
    by (simp add: format_coordinates_clusterer fl)
  show "sorted (map x_coord (sort_key x_coord l))" for l :: "coord list" by simp
  show "mset (sort_key x_coord l) = mset l" for l :: "coord list" by simp
  show "filter (\<lambda>f. x_coord f = k) (sort_key x_coord l) = filter (\<lambda>f. x_coord f = k) l"
    for l :: "coord list" and k
    by (rule sort_key_stable)
  show "join sep (ts @ us) = join sep ts @ sep @ join sep us" if "ts \<noteq> [] \<and> us \<noteq> []"
    for sep ts us using that by (simp add: join_append)
  show "length (join sep ts) = sum_list (map length ts) + length sep * (length ts - 1)"
    if "ts \<noteq> []" for sep ts using that by (rule length_join)
  show "join '' '' [''a'', '''', ''b''] = ''a  b''" by simp
qed

theorem formatter_sorts_and_joins_witness:
  "format_coordinates
     [\<lparr>item_text = ''World'', y_coord = 102, x_coord = 120\<rparr>,
      \<lparr>item_text = ''Foo'', y_coord = 140, x_coord = 50\<rparr>,
      \<lparr>item_text = '''', y_coord = 100, x_coord = 50\<rparr>,
      \<lparr>item_text = ''Hello'', y_coord = 101, x_coord = 10\<rparr>]
   = ''Hello  World'' @ [CHR 0x0A] @ ''Foo''"
proof -
  let ?fs = "[\<lparr>item_text = ''World'', y_coord = 102, x_coord = 120\<rparr>,
      \<lparr>item_text = ''Foo'', y_coord = 140, x_coord = 50\<rparr>,
      \<lparr>item_text = '''', y_coord = 100, x_coord = 50\<rparr>,
      \<lparr>item_text = ''Hello'', y_coord = 101, x_coord = 10\<rparr>]"
  have cl: "clusterer ?fs =
     [[\<lparr>item_text = '''', y_coord = 100, x_coord = 50\<rparr>,
       \<lparr>item_text = ''Hello'', y_coord = 101, x_coord = 10\<rparr>,
       \<lparr>item_text = ''World'', y_coord = 102, x_coord = 120\<rparr>],
      [\<lparr>item_text = ''Foo'', y_coord = 140, x_coord = 50\<rparr>]]"
    by (simp add: clusterer_def less_eq_prod_def)
  from formatter_sorts_and_joins [of ?fs]
  have "format_coordinates ?fs
     = join [CHR 0x0A] (map (\<lambda>l. join '' '' (map item_text (sort_key x_coord l))) (clusterer ?fs))"
    by (elim conjE)
  then show ?thesis by (simp add: cl)
qed

text \<open>
  C10.  For a detector result whose first page is not empty and whose boxes can be read
  and have pixel coordinates, the reconstruction returns normally; every fragment is in
  exactly one line of the clusterer, and the texts joined in the output, line by line, are
  a permutation of the texts of the input fragments: none is dropped and none is
  duplicated.  The output holds every character of every text and one separator between
  two neighbours and nothing else (its length is the sum of the lengths of the texts plus
  the number of fragments minus one); when no text contains a space or a newline,
  splitting the output on newlines and every line on spaces gives back a permutation of
  the texts of the fragments.
\<close>

theorem every_fragment_in_exactly_one_line:
  assumes "first_page result \<noteq> []"
    and "\<forall>item\<in>set (first_page result). well_formed_box (fst item) \<and> pixel_box (fst item)"
  shows "\<exists>tcs out. text_coordinates [] (first_page result) = Inr tcs
           \<and> map item_text tcs = map (fst \<circ> snd) (first_page result)
           \<and> (\<forall>f\<in>set tcs. exact_anchor (y_coord f))
           \<and> mset (concat (clusterer tcs)) = mset tcs
           \<and> [] \<notin> set (clusterer tcs)
           \<and> process_ocr_result result = Inr out
           \<and> out = join [CHR 0x0A] (map (\<lambda>l. join '' '' (line_texts l)) (clusterer tcs))
           \<and> mset (concat (map line_texts (clusterer tcs)))
               = mset (map (fst \<circ> snd) (first_page result))
           \<and> length out + 1
               = sum_list (map (length \<circ> fst \<circ> snd) (first_page result)) + length (first_page result)
           \<and> ((\<forall>item\<in>set (first_page result).
                  CHR '' '' \<notin> set (fst (snd item)) \<and> CHR 0x0A \<notin> set (fst (snd item)))
                \<longrightarrow> mset (concat (map (split_on CHR '' '' []) (split_on (CHR 0x0A) [] out)))
                     = mset (map (fst \<circ> snd) (first_page result)))"
proof -
  let ?texts = "map (fst \<circ> snd) (first_page result)"
  obtain tcs where tcs: "text_coordinates [] (first_page result) = Inr tcs"
      "map item_text tcs = ?texts" "\<forall>f\<in>set tcs. exact_anchor (y_coord f)"
    using text_coordinates_pixel [OF assms(2), of "[]"] by auto
  let ?ls = "clusterer tcs"
  let ?out = "join [CHR 0x0A] (map (\<lambda>l. join '' '' (line_texts l)) ?ls)"
  have len: "length tcs = length (first_page result)"
    using tcs(2) by (metis length_map)
  then have tne: "tcs \<noteq> []" using assms(1) by auto
  have lne: "?ls \<noteq> []" using tne by (rule clusterer_not_Nil)
  have part: "mset (concat ?ls) = mset tcs" by (simp add: concat_clusterer)
  have ne: "[] \<notin> set ?ls" using clusterer_lines [of "[]" tcs] by blast
  have fl: "format_line = (\<lambda>l. join '' '' (line_texts l))"
    by (rule ext) (simp add: format_line_line_texts)
  have out: "process_ocr_result result = Inr ?out"
    using assms(1) tcs(1) by (simp add: process_ocr_result_def format_coordinates_clusterer fl)
  have "mset (concat (map line_texts ?ls)) = image_mset item_text (mset tcs)"
    by (simp add: mset_concat_line_texts part)
  also have "\<dots> = mset (map item_text tcs)" by simp
  finally have perm: "mset (concat (map line_texts ?ls)) = mset ?texts" using tcs(2) by simp
  have "length (concat ?ls) = length tcs" using part by (rule mset_eq_length)
  then have cl: "length (concat ?ls) = length (first_page result)" using len by simp
  have "sum_list (map length (concat (map line_texts ?ls))) = sum_list (map length ?texts)"
    using perm by (rule sum_list_length_mset)
  then have "length ?out + 1 = sum_list (map length ?texts) + length (first_page result)"
    using length_output [OF lne ne] cl by simp
  then have lo: "length ?out + 1
      = sum_list (map (length \<circ> fst \<circ> snd) (first_page result)) + length (first_page result)"
    by (simp add: comp_def)
  have sp: "mset (concat (map (split_on CHR '' '' []) (split_on (CHR 0x0A) [] ?out))) = mset ?texts"
    if free: "\<forall>item\<in>set (first_page result).
                  CHR '' '' \<notin> set (fst (snd item)) \<and> CHR 0x0A \<notin> set (fst (snd item))"
  proof -
    have "\<forall>t\<in>set ?texts. CHR '' '' \<notin> set t \<and> CHR 0x0A \<notin> set t" using free by simp
    then have t: "\<forall>t\<in>set (map item_text tcs). CHR '' '' \<notin> set t \<and> CHR 0x0A \<notin> set t"
      by (simp only: tcs(2))
    have "\<forall>l\<in>set ?ls. \<forall>f\<in>set l. CHR '' '' \<notin> set (item_text f) \<and> CHR 0x0A \<notin> set (item_text f)"
    proof (intro ballI)
      fix l f assume "l \<in> set ?ls" "f \<in> set l"
      then have "f \<in> set (concat ?ls)" by auto
      then have "f \<in> set tcs" using part by (metis set_mset_mset)
      then show "CHR '' '' \<notin> set (item_text f) \<and> CHR 0x0A \<notin> set (item_text f)" using t by simp
    qed
    then have "concat (map (split_on CHR '' '' []) (split_on (CHR 0x0A) [] ?out))
        = concat (map line_texts ?ls)"
      using split_output [OF lne ne] by blast
    then show ?thesis using perm by simp
  qed
  show ?thesis using tcs part ne out perm lo sp by blast
qed

theorem every_fragment_in_exactly_one_line_witness:
  "process_ocr_result
     (Some [Some [([[50, 90], [100, 90], [100, 110], [50, 110]], (''Hello'', 1)),
                  ([[50, 130], [100, 130], [100, 150], [50, 150]], (''Foo'', 1)),
                  ([[120, 92], [170, 92], [170, 112], [120, 112]], (''World'', 1))]])
   = Inr (''Hello World'' @ [CHR 0x0A] @ ''Foo'')"
proof -
  let ?items = "[([[50, 90], [100, 90], [100, 110], [50, 110]], (''Hello'', 1)),
                  ([[50, 130], [100, 130], [100, 150], [50, 150]], (''Foo'', 1)),
                  ([[120, 92], [170, 92], [170, 112], [120, 112]], (''World'', 1 :: rat))]
                 :: raw_item list"
  let ?tcs = "[\<lparr>item_text = ''Hello'', y_coord = 100, x_coord = 50\<rparr>,
               \<lparr>item_text = ''Foo'', y_coord = 140, x_coord = 50\<rparr>,
               \<lparr>item_text = ''World'', y_coord = 102, x_coord = 120\<rparr>]"
  have h1: "first_page (Some [Some ?items]) \<noteq> []" by simp
  have h2: "\<forall>item\<in>set (first_page (Some [Some ?items])).
              well_formed_box (fst item) \<and> pixel_box (fst item)"
    by (simp add: well_formed_box_def pixel_box_def pixel_def)
  have tc: "text_coordinates [] (first_page (Some [Some ?items])) = Inr ?tcs"
    by (simp add: item_coord_def getitem_def)
  have cl: "clusterer ?tcs =
      [[\<lparr>item_text = ''Hello'', y_coord = 100, x_coord = 50\<rparr>,
        \<lparr>item_text = ''World'', y_coord = 102, x_coord = 120\<rparr>],
       [\<lparr>item_text = ''Foo'', y_coord = 140, x_coord = 50\<rparr>]]"
    by (simp add: clusterer_def less_eq_prod_def)
  from every_fragment_in_exactly_one_line [OF h1 h2] tc
  have "process_ocr_result (Some [Some ?items])
      = Inr (join [CHR 0x0A] (map (\<lambda>l. join '' '' (line_texts l)) (clusterer ?tcs)))"
    by auto
  then show ?thesis by (simp add: cl line_texts_def)
qed


section \<open>Properties of the endpoints\<close>

subsection \<open>What the loop bodies give\<close>

lemma fst_augment: "fst (augment E p w) = enhanced_variant E (storage w p)"
  by (simp add: augment_def enhanced_variant_def Let_def split: sum.splits)

lemma storage_augment: "storage (snd (augment E p w)) = storage w"
  by (simp add: augment_def Let_def log_def split: sum.splits)

lemma uuid_calls_augment: "uuid_calls (snd (augment E p w)) = uuid_calls w"
  by (simp add: augment_def Let_def log_def split: sum.splits)

lemma augment_world:
  "\<exists>evs. snd (augment E p w) = w\<lparr>events := events w @ Imread p # CvtColor # evs\<rparr>
         \<and> set evs \<subseteq> {Threshold, Ocr_array}"
  by (auto simp add: augment_def Let_def log_def split: sum.splits)

lemma fst_except_finally:
  "fst (except_finally name p (r, w1)) = (case r of Inl e \<Rightarrow> caught name e | Inr entry \<Rightarrow> Inr entry)"
  by (simp add: except_finally_def split: sum.splits raised.splits)

lemma snd_except_finally: "snd (except_finally name p (r, w1)) = remove_if_exists p w1"
  by (simp add: except_finally_def split: sum.splits raised.splits)

lemma batch_try_Saved:
  "file_save E file = Saved \<Longrightarrow>
   batch_try E file p w
     = (case identity_variant E file of
          Inl e \<Rightarrow> Inl e
        | Inr formatted_text \<Rightarrow> Inr (Success (filename file) formatted_text),
        log (Ocr_path p) (log (Save p) (w\<lparr>storage := (storage w)(p \<mapsto> content file)\<rparr>)))"
  by (simp add: batch_try_def save_file_def ocr_file_def log_def identity_variant_def
      split: sum.splits)

lemma batch_try_raised:
  "file_save E file = Save_raised e left \<Longrightarrow>
   batch_try E file p w
     = (Inl e, log (Save p)
          (case left of None \<Rightarrow> w | Some b \<Rightarrow> w\<lparr>storage := (storage w)(p \<mapsto> b)\<rparr>))"
  by (simp add: batch_try_def save_file_def split: option.splits)

lemma fst_batch_item: "fst (batch_item E w file) = simple_outcome E file"
proof (cases "truthy file \<and> allowed_file (filename file)")
  case False
  then show ?thesis by (auto simp add: batch_item_def simple_outcome_def)
next
  case True
  show ?thesis
  proof (cases "file_save E file")
    case Saved
    then show ?thesis using True
      by (simp add: batch_item_def simple_outcome_def Let_def batch_try_Saved fst_except_finally
          split: sum.splits)
  next
    case (Save_raised e left)
    then show ?thesis using True
      by (simp add: batch_item_def simple_outcome_def Let_def batch_try_raised fst_except_finally)
  qed
qed

lemma augment_fstD: "augment E p w = (r, w') \<Longrightarrow> r = enhanced_variant E (storage w p)"
  using fst_augment [of E p w] by simp

lemma augmented_try_raised:
  "file_save E file = Save_raised e left \<Longrightarrow>
   augmented_try E file p w
     = (Inl e, log (Save p)
          (case left of None \<Rightarrow> w | Some b \<Rightarrow> w\<lparr>storage := (storage w)(p \<mapsto> b)\<rparr>))"
  by (simp add: augmented_try_def save_file_def split: option.splits)

lemma augmented_try_identity_fails:
  "file_save E file = Saved \<Longrightarrow> identity_variant E file = Inl e \<Longrightarrow>
   augmented_try E file p w
     = (Inl e, log (Ocr_path p) (log (Save p) (w\<lparr>storage := (storage w)(p \<mapsto> content file)\<rparr>)))"
  by (auto simp add: augmented_try_def save_file_def ocr_file_def log_def identity_variant_def
      split: sum.splits)

lemma augmented_try_identity_ok:
  "file_save E file = Saved \<Longrightarrow> identity_variant E file = Inr original_text \<Longrightarrow>
   augmented_try E file p w
     = (let w2 = log (Ocr_path p) (log (Save p) (w\<lparr>storage := (storage w)(p \<mapsto> content file)\<rparr>))
        in (case enhanced_variant E (Some (content file)) of
              Inl e \<Rightarrow> Inl e
            | Inr augmented_text \<Rightarrow>
                Inr (Augmented (filename file) augmented_text original_text
                       [(''Original'', word_count original_text),
                        (''Grayscale + Threshold'', word_count augmented_text)]),
            snd (augment E p w2)))"
  by (auto simp add: augmented_try_def save_file_def ocr_file_def log_def identity_variant_def Let_def
      split: sum.splits prod.splits dest!: augment_fstD)

lemma fst_augmented_item: "fst (augmented_item E w file) = augmented_outcome E file"
proof (cases "truthy file \<and> allowed_file (filename file)")
  case False
  then show ?thesis by (auto simp add: augmented_item_def augmented_outcome_def)
next
  case True
  show ?thesis
  proof (cases "file_save E file")
    case (Save_raised e left)
    then show ?thesis using True
      by (simp add: augmented_item_def augmented_outcome_def Let_def augmented_try_raised
          fst_except_finally)
  next
    case Saved
    show ?thesis
    proof (cases "identity_variant E file")
      case (Inl e)
      then show ?thesis using True Saved
        by (simp add: augmented_item_def augmented_outcome_def Let_def augmented_try_identity_fails
            fst_except_finally)
    next
      case (Inr original_text)
      then show ?thesis using True Saved
        by (simp add: augmented_item_def augmented_outcome_def Let_def
            augmented_try_identity_ok [OF Saved Inr] fst_except_finally split: sum.splits)
    qed
  qed
qed

lemma for_each_file_fst:
  assumes "\<And>w file. fst (body w file) = f file"
    and "\<forall>file\<in>set files. f file = Inr (g file)"
  shows "fst (for_each_file body w results files) = Inr (results @ map g files)"
  using assms(2)
proof (induction files arbitrary: w results)
  case Nil
  then show ?case by simp
next
  case (Cons u files)
  obtain r w' where b: "body w u = (r, w')" by (cases "body w u")
  then have "r = Inr (g u)" using assms(1) [of w u] Cons.prems by simp
  then show ?case using b Cons.IH [of w' "results @ [g u]"] Cons.prems by simp
qed

lemma reconstruct_not_base: "reconstruct result \<noteq> Inl (BaseException m)"
  by (simp add: reconstruct_def split: sum.splits)

lemma identity_variant_not_base:
  "only_exceptions E \<Longrightarrow> identity_variant E file \<noteq> Inl (BaseException m)"
  by (auto simp add: only_exceptions_def identity_variant_def reconstruct_not_base split: sum.splits)

lemma enhanced_variant_not_base:
  "only_exceptions E \<Longrightarrow> enhanced_variant E stored \<noteq> Inl (BaseException m)"
  by (auto simp add: only_exceptions_def enhanced_variant_def reconstruct_not_base split: sum.splits)

lemma caught_Exception: "(\<forall>m. e \<noteq> BaseException m) \<Longrightarrow> caught name e = Inr (Failed name (message e))"
  by (cases e) simp_all

lemma simple_outcome_Inr:
  assumes "only_exceptions E"
  shows "\<exists>out. simple_outcome E file = Inr out \<and> outcome_filename out = display_name file"
proof (cases "truthy file \<and> allowed_file (filename file)")
  case False
  then show ?thesis by (auto simp add: simple_outcome_def)
next
  case True
  then have d: "display_name file = filename file" by (simp add: display_name_def)
  show ?thesis
  proof (cases "file_save E file")
    case (Save_raised e left)
    have "\<forall>m. e \<noteq> BaseException m" using assms Save_raised by (auto simp add: only_exceptions_def)
    then show ?thesis using True Save_raised d by (simp add: simple_outcome_def caught_Exception)
  next
    case Saved
    show ?thesis
    proof (cases "identity_variant E file")
      case (Inl e)
      have "\<forall>m. e \<noteq> BaseException m" using identity_variant_not_base [OF assms] Inl by auto
      then show ?thesis using True Saved Inl d by (simp add: simple_outcome_def caught_Exception)
    next
      case (Inr t)
      then show ?thesis using True Saved d by (simp add: simple_outcome_def)
    qed
  qed
qed

lemma augmented_outcome_Inr:
  assumes "only_exceptions E"
  shows "\<exists>out. augmented_outcome E file = Inr out \<and> outcome_filename out = display_name file"
proof (cases "truthy file \<and> allowed_file (filename file)")
  case False
  then show ?thesis by (auto simp add: augmented_outcome_def)
next
  case True
  then have d: "display_name file = filename file" by (simp add: display_name_def)
  show ?thesis
  proof (cases "file_save E file")
    case (Save_raised e left)
    have "\<forall>m. e \<noteq> BaseException m" using assms Save_raised by (auto simp add: only_exceptions_def)
    then show ?thesis using True Save_raised d by (simp add: augmented_outcome_def caught_Exception)
  next
    case Saved
    show ?thesis
    proof (cases "identity_variant E file")
      case (Inl e)
      have "\<forall>m. e \<noteq> BaseException m" using identity_variant_not_base [OF assms] Inl by auto
      then show ?thesis using True Saved Inl d by (simp add: augmented_outcome_def caught_Exception)
    next
      case (Inr t)
      show ?thesis
      proof (cases "enhanced_variant E (Some (content file))")
        case (Inl e)
        have "\<forall>m. e \<noteq> BaseException m"
          using enhanced_variant_not_base [OF assms, of "Some (content file)"] Inl by auto
        then show ?thesis using True Saved Inr Inl d
          by (simp add: augmented_outcome_def caught_Exception)
      next
        case (Inr t')
        then show ?thesis using True Saved \<open>identity_variant E file = Inr t\<close> d
          by (simp add: augmented_outcome_def)
      qed
    qed
  qed
qed


subsection \<open>Validation, the loop and the answers of the batch endpoints\<close>

lemma lower_png: "lower ''PnG'' = ''png''"
  by (simp add: lower_def lower_char_def uppercase_def lowercase_def)

lemma rsplit1_dot:
  assumes "CHR ''.'' \<in> set s"
  shows "\<exists>base ext. s = base @ ''.'' @ ext \<and> CHR ''.'' \<notin> set ext
           \<and> rsplit1 CHR ''.'' s = [base, ext]"
proof -
  let ?P = "\<lambda>c. c \<noteq> CHR ''.''"
  let ?t = "takeWhile ?P (rev s)"
  let ?d = "dropWhile ?P (rev s)"
  have "\<not> (\<forall>c\<in>set (rev s). ?P c)" using assms by simp
  then have ne: "?d \<noteq> []" by (simp add: dropWhile_eq_Nil_conv)
  then have "\<not> ?P (hd ?d)" by (rule hd_dropWhile)
  then have d: "?d = CHR ''.'' # tl ?d" using ne by (cases ?d) simp_all
  have "rev s = ?t @ ?d" by simp
  then have "rev s = ?t @ CHR ''.'' # tl ?d" using d by simp
  then have "rev (rev s) = rev (?t @ CHR ''.'' # tl ?d)" by (rule arg_cong)
  then have s: "s = rev (tl ?d) @ ''.'' @ rev ?t" by simp
  have "CHR ''.'' \<notin> set (rev ?t)" by (auto dest: set_takeWhileD)
  moreover have "rsplit1 CHR ''.'' s = [rev (tl ?d), rev ?t]"
    using assms by (simp add: rsplit1_def)
  ultimately show ?thesis using s by blast
qed

lemma rsplit1_append:
  assumes "CHR ''.'' \<notin> set ext"
  shows "rsplit1 CHR ''.'' (base @ ''.'' @ ext) = [base, ext]"
proof -
  let ?P = "\<lambda>c. c \<noteq> CHR ''.''"
  have r: "rev (base @ ''.'' @ ext) = rev ext @ CHR ''.'' # rev base" by simp
  have p: "\<And>x. x \<in> set (rev ext) \<Longrightarrow> ?P x" using assms by auto
  have "takeWhile ?P (rev ext @ CHR ''.'' # rev base)
          = rev ext @ takeWhile ?P (CHR ''.'' # rev base)"
    by (rule takeWhile_append2) (rule p)
  then have t: "takeWhile ?P (rev ext @ CHR ''.'' # rev base) = rev ext" by simp
  have "dropWhile ?P (rev ext @ CHR ''.'' # rev base) = dropWhile ?P (CHR ''.'' # rev base)"
    by (rule dropWhile_append2) (rule p)
  then have d: "dropWhile ?P (rev ext @ CHR ''.'' # rev base) = CHR ''.'' # rev base" by simp
  have "CHR ''.'' \<in> set (base @ ''.'' @ ext)" by simp
  then have "rsplit1 CHR ''.'' (base @ ''.'' @ ext)
      = [rev (tl (dropWhile ?P (rev (base @ ''.'' @ ext)))), rev (takeWhile ?P (rev (base @ ''.'' @ ext)))]"
    unfolding rsplit1_def by (rule if_P)
  also have "\<dots> = [base, ext]" unfolding r t d by simp
  finally show ?thesis .
qed

lemma allowed_file_iff:
  "allowed_file name \<longleftrightarrow>
     (\<exists>base ext. name = base @ ''.'' @ ext \<and> CHR ''.'' \<notin> set ext \<and> lower ext \<in> ALLOWED_EXTENSIONS)"
proof
  assume a: "allowed_file name"
  then have dot: "CHR ''.'' \<in> set name" by (simp add: allowed_file_def split: if_splits)
  then obtain base ext where s: "name = base @ ''.'' @ ext" "CHR ''.'' \<notin> set ext"
      "rsplit1 CHR ''.'' name = [base, ext]"
    using rsplit1_dot by blast
  have "lower (rsplit1 CHR ''.'' name ! 1) \<in> ALLOWED_EXTENSIONS"
    using a dot by (simp add: allowed_file_def)
  then have "lower ext \<in> ALLOWED_EXTENSIONS" using s(3) by simp
  then show "\<exists>base ext. name = base @ ''.'' @ ext \<and> CHR ''.'' \<notin> set ext \<and> lower ext \<in> ALLOWED_EXTENSIONS"
    using s by blast
next
  assume "\<exists>base ext. name = base @ ''.'' @ ext \<and> CHR ''.'' \<notin> set ext \<and> lower ext \<in> ALLOWED_EXTENSIONS"
  then obtain base ext where s: "name = base @ ''.'' @ ext" "CHR ''.'' \<notin> set ext"
      "lower ext \<in> ALLOWED_EXTENSIONS"
    by blast
  have "rsplit1 CHR ''.'' name = [base, ext]" using s(1,2) rsplit1_append by simp
  moreover have "CHR ''.'' \<in> set name" using s(1) by simp
  ultimately show "allowed_file name" using s(3) by (simp add: allowed_file_def)
qed


lemma allowed_examples:
  "allowed_file ''a.png''" "\<not> allowed_file ''b.gif''" "allowed_file ''c.jpg''"
  "allowed_file ''scan.PNG''" "\<not> allowed_file ''png''" "allowed_file ''scan.png''"
  "allowed_file ''b.png''"
  by (simp_all add: allowed_file_def rsplit1_def lower_def lower_char_def uppercase_def lowercase_def ALLOWED_EXTENSIONS_def)

lemma gif_rejected: "\<not> allowed_file (base @ ''.gif'')"
proof -
  have "rsplit1 CHR ''.'' (base @ ''.'' @ ''gif'') = [base, ''gif'']"
    by (rule rsplit1_append) simp
  then have "rsplit1 CHR ''.'' (base @ ''.gif'') = [base, ''gif'']" by simp
  then show ?thesis
    by (simp add: allowed_file_def lower_def lower_char_def uppercase_def lowercase_def ALLOWED_EXTENSIONS_def)
qed

lemma sample_text: "process_ocr_result sample_result = Inr ''Hello''"
  by (simp add: sample_result_def process_ocr_result_def item_coord_def getitem_def
      format_coordinates_def formatted_lines_def format_line_def)

lemma reconstruct_sample: "reconstruct sample_result = Inr ''Hello''"
  by (simp add: reconstruct_def sample_text)

lemma batch_item_rejected:
  "\<not> (truthy file \<and> allowed_file (filename file)) \<Longrightarrow>
   batch_item E w file = (Inr (Failed (display_name file) not_allowed), w)"
  by (cases "truthy file") (simp_all add: batch_item_def)

lemma augmented_item_rejected:
  "\<not> (truthy file \<and> allowed_file (filename file)) \<Longrightarrow>
   augmented_item E w file = (Inr (Failed (display_name file) not_allowed), w)"
  by (cases "truthy file") (simp_all add: augmented_item_def)

lemma single_rejected:
  "filename file \<noteq> '''' \<Longrightarrow> \<not> allowed_file (filename file) \<Longrightarrow>
   upload_and_ocr E w (Some file) = (Http_error 400 not_allowed, w)"
  by (simp add: upload_and_ocr_def)

lemma simple_outcome_projr:
  "only_exceptions E \<Longrightarrow> simple_outcome E file = Inr (projr (simple_outcome E file))"
  using simple_outcome_Inr [of E] by (metis sum.sel(2))

lemma augmented_outcome_projr:
  "only_exceptions E \<Longrightarrow> augmented_outcome E file = Inr (projr (augmented_outcome E file))"
  using augmented_outcome_Inr [of E] by (metis sum.sel(2))

lemma fst_batch_loop:
  assumes "only_exceptions E"
  shows "fst (for_each_file (batch_item E) w results files)
           = Inr (results @ map (\<lambda>file. projr (simple_outcome E file)) files)"
proof (rule for_each_file_fst)
  show "fst (batch_item E w u) = simple_outcome E u" for w u by (rule fst_batch_item)
  show "\<forall>file\<in>set files. simple_outcome E file = Inr (projr (simple_outcome E file))"
    using simple_outcome_projr [OF assms] by blast
qed

lemma fst_augmented_loop:
  assumes "only_exceptions E"
  shows "fst (for_each_file (augmented_item E) w results files)
           = Inr (results @ map (\<lambda>file. projr (augmented_outcome E file)) files)"
proof (rule for_each_file_fst)
  show "fst (augmented_item E w u) = augmented_outcome E u" for w u
    by (rule fst_augmented_item)
  show "\<forall>file\<in>set files. augmented_outcome E file = Inr (projr (augmented_outcome E file))"
    using augmented_outcome_projr [OF assms] by blast
qed

lemma list_all_names: "(\<exists>file\<in>set files. filename file \<noteq> '''') \<Longrightarrow>
   \<not> (files = [] \<or> list_all (\<lambda>file. filename file = '''') files)"
  by (auto simp add: list_all_iff)

lemma batch_response:
  assumes "\<exists>file\<in>set files. filename file \<noteq> ''''" and "only_exceptions E"
  shows "upload_and_ocr_batch E w (Some files)
           = (Ok_results (map (\<lambda>file. projr (simple_outcome E file)) files),
              snd (for_each_file (batch_item E) w [] files))"
proof -
  obtain r w' where l: "for_each_file (batch_item E) w [] files = (r, w')"
    by (cases "for_each_file (batch_item E) w [] files")
  then have "r = Inr (map (\<lambda>file. projr (simple_outcome E file)) files)"
    using fst_batch_loop [OF assms(2), of w "[]" files] by simp
  then show ?thesis using l list_all_names [OF assms(1)] by (simp add: upload_and_ocr_batch_def)
qed

lemma augmented_response:
  assumes "\<exists>file\<in>set files. filename file \<noteq> ''''" and "only_exceptions E"
  shows "upload_and_ocr_batch_augmented E w (Some files)
           = (Ok_results (map (\<lambda>file. projr (augmented_outcome E file)) files),
              snd (for_each_file (augmented_item E) w [] files))"
proof -
  obtain r w' where l: "for_each_file (augmented_item E) w [] files = (r, w')"
    by (cases "for_each_file (augmented_item E) w [] files")
  then have "r = Inr (map (\<lambda>file. projr (augmented_outcome E file)) files)"
    using fst_augmented_loop [OF assms(2), of w "[]" files] by simp
  then show ?thesis using l list_all_names [OF assms(1)]
    by (simp add: upload_and_ocr_batch_augmented_def)
qed

lemma only_exceptions_stub:
  assumes "\<forall>m left. saved \<noteq> Save_raised (BaseException m) left"
    and "\<forall>stored m. on_path stored \<noteq> Inl (BaseException m)"
    and "\<forall>m. on_array \<noteq> Inl (BaseException m)"
  shows "only_exceptions (stub_env saved on_path img on_array)"
  using assms by (auto simp add: only_exceptions_def stub_env_def split: ocr_input.splits option.splits)

lemma batch_of_three:
  assumes "filename f2 \<noteq> ''''" and "\<not> allowed_file (filename f2)"
    and "for_each_file (batch_item E) w [] [f1, f3] = (Inr [r1, r3], w')"
  shows "upload_and_ocr_batch E w (Some [f1, f2, f3])
           = (Ok_results [r1, Failed (filename f2) not_allowed, r3], w')"
proof -
  obtain x1 w1 where b1: "batch_item E w f1 = (x1, w1)" by (cases "batch_item E w f1")
  obtain x3 w3 where b3: "batch_item E w1 f3 = (x3, w3)" by (cases "batch_item E w1 f3")
  have x: "x1 = Inr r1 \<and> x3 = Inr r3 \<and> w3 = w'"
    using assms(3) b1 b3 by (cases x1; cases x3) simp_all
  have b2: "batch_item E w1 f2 = (Inr (Failed (filename f2) not_allowed), w1)"
    using assms(1,2) batch_item_rejected [of f2 E w1] by (simp add: display_name_def truthy_def)
  show ?thesis using b1 b2 b3 x assms(1) by (simp add: upload_and_ocr_batch_def)
qed


subsection \<open>The claims about the batch endpoints\<close>

lemma fst_loop_single:
  "fst (body w u) = Inr out \<Longrightarrow> fst (for_each_file body w [] [u]) = Inr [out]"
  by (cases "body w u") simp

text \<open>
  C2.  For a batch request in which at least one file has a name, and collaborators that
  raise nothing but exceptions deriving from \<^verbatim>\<open>Exception\<close>, both batch endpoints answer
  with a list of results that has exactly one entry per file, in the order of the files:
  entry \<open>i\<close> carries the name of file \<open>i\<close> (or Unknown when it has none) and is what the
  loop body gives for file \<open>i\<close>, whatever the state it runs in and whichever files succeed
  or fail.
\<close>

theorem one_outcome_per_item_in_order:
  assumes "\<exists>file\<in>set files. filename file \<noteq> ''''" and "only_exceptions E"
  shows "(\<exists>results w'. upload_and_ocr_batch E w (Some files) = (Ok_results results, w')
            \<and> length results = length files
            \<and> map outcome_filename results = map display_name files
            \<and> (\<forall>w0. map Inr results = map (\<lambda>file. fst (batch_item E w0 file)) files))
       \<and> (\<exists>results w'. upload_and_ocr_batch_augmented E w (Some files) = (Ok_results results, w')
            \<and> length results = length files
            \<and> map outcome_filename results = map display_name files
            \<and> (\<forall>w0. map Inr results = map (\<lambda>file. fst (augmented_item E w0 file)) files))"
proof (rule conjI)
  let ?rs = "map (\<lambda>file. projr (simple_outcome E file)) files"
  have "upload_and_ocr_batch E w (Some files)
          = (Ok_results ?rs, snd (for_each_file (batch_item E) w [] files))"
    using assms by (rule batch_response)
  moreover have "length ?rs = length files" by simp
  moreover have "map outcome_filename ?rs = map display_name files"
    using simple_outcome_Inr [OF assms(2)] by (simp add: comp_def) (metis sum.sel(2))
  moreover have "\<forall>w0. map Inr ?rs = map (\<lambda>file. fst (batch_item E w0 file)) files"
    using simple_outcome_projr [OF assms(2)] by (simp add: fst_batch_item comp_def)
  ultimately show "\<exists>results w'. upload_and_ocr_batch E w (Some files) = (Ok_results results, w')
            \<and> length results = length files
            \<and> map outcome_filename results = map display_name files
            \<and> (\<forall>w0. map Inr results = map (\<lambda>file. fst (batch_item E w0 file)) files)"
    by blast
next
  let ?rs = "map (\<lambda>file. projr (augmented_outcome E file)) files"
  have "upload_and_ocr_batch_augmented E w (Some files)
          = (Ok_results ?rs, snd (for_each_file (augmented_item E) w [] files))"
    using assms by (rule augmented_response)
  moreover have "length ?rs = length files" by simp
  moreover have "map outcome_filename ?rs = map display_name files"
    using augmented_outcome_Inr [OF assms(2)] by (simp add: comp_def) (metis sum.sel(2))
  moreover have "\<forall>w0. map Inr ?rs = map (\<lambda>file. fst (augmented_item E w0 file)) files"
    using augmented_outcome_projr [OF assms(2)] by (simp add: fst_augmented_item comp_def)
  ultimately show "\<exists>results w'. upload_and_ocr_batch_augmented E w (Some files) = (Ok_results results, w')
            \<and> length results = length files
            \<and> map outcome_filename results = map display_name files
            \<and> (\<forall>w0. map Inr results = map (\<lambda>file. fst (augmented_item E w0 file)) files)"
    by blast
qed

theorem one_outcome_per_item_in_order_witness:
  "\<exists>w'. upload_and_ocr_batch (stub_env Saved reads_all None (Inr sample_result)) empty_world
       (Some [upload_named ''a.png'', upload_named ''b.gif'', upload_named '''', upload_named ''c.jpg''])
     = (Ok_results [Success ''a.png'' ''Hello'', Failed ''b.gif'' ''File type not allowed'',
                    Failed ''Unknown'' ''File type not allowed'', Success ''c.jpg'' ''Hello''], w')"
proof -
  let ?E = "stub_env Saved reads_all None (Inr sample_result)"
  let ?files = "[upload_named ''a.png'', upload_named ''b.gif'', upload_named '''', upload_named ''c.jpg'']"
  have h: "\<exists>file\<in>set ?files. filename file \<noteq> ''''" by (simp add: upload_named_def)
  have x: "only_exceptions ?E"
    by (auto simp add: only_exceptions_def stub_env_def reads_all_def
        split: ocr_input.splits option.splits)
  from one_outcome_per_item_in_order [OF h x, of empty_world]
  obtain results w' where r: "upload_and_ocr_batch ?E empty_world (Some ?files) = (Ok_results results, w')"
      "\<forall>w0. map Inr results = map (\<lambda>file. fst (batch_item ?E w0 file)) ?files"
    by blast
  have o: "fst (batch_item ?E empty_world (upload_named ''a.png'')) = Inr (Success ''a.png'' ''Hello'')"
      "fst (batch_item ?E empty_world (upload_named ''b.gif'')) = Inr (Failed ''b.gif'' ''File type not allowed'')"
      "fst (batch_item ?E empty_world (upload_named '''')) = Inr (Failed ''Unknown'' ''File type not allowed'')"
      "fst (batch_item ?E empty_world (upload_named ''c.jpg'')) = Inr (Success ''c.jpg'' ''Hello'')"
    by (simp_all add: fst_batch_item simple_outcome_def upload_named_def truthy_def allowed_examples
        stub_env_def reads_all_def identity_variant_def reconstruct_sample display_name_def
        not_allowed_def)
  from r(2) have "map Inr results = map (\<lambda>file. fst (batch_item ?E empty_world file)) ?files"
    by (elim allE)
  then have "results = [Success ''a.png'' ''Hello'', Failed ''b.gif'' ''File type not allowed'',
                    Failed ''Unknown'' ''File type not allowed'', Success ''c.jpg'' ''Hello'']"
    using o by (auto simp add: map_eq_Cons_conv)
  then show ?thesis using r(1) by simp
qed

text \<open>
  C3.  With collaborators that raise nothing but exceptions deriving from \<^verbatim>\<open>Exception\<close>,
  every failure of an item becomes an error entry for that item, with a message: a file
  type that is not allowed, an exception of \<^verbatim>\<open>file.save\<close>, an exception of the detector
  or of the reconstruction (an image that cannot be read included), an exception of the
  preprocessing or of the second detector run.  The loop goes on after it: the results for
  files \<open>pre\<close>, \<open>bad\<close>, \<open>post\<close> are the results for \<open>pre\<close>, the entry of \<open>bad\<close> and the
  results for \<open>post\<close>, each of them the same in whatever state it is computed, so no entry
  depends on another item; and the endpoints answer with the list of results, not with an
  exception.
\<close>

theorem item_failure_is_isolated:
  assumes "only_exceptions E"
  shows "(\<forall>file w. \<not> (truthy file \<and> allowed_file (filename file)) \<longrightarrow>
        fst (batch_item E w file) = Inr (Failed (display_name file) ''File type not allowed'')
      \<and> fst (augmented_item E w file) = Inr (Failed (display_name file) ''File type not allowed''))
   \<and> (\<forall>file w m left. truthy file \<and> allowed_file (filename file)
          \<and> file_save E file = Save_raised (Exception m) left \<longrightarrow>
        fst (batch_item E w file) = Inr (Failed (filename file) m)
      \<and> fst (augmented_item E w file) = Inr (Failed (filename file) m))
   \<and> (\<forall>file w m. truthy file \<and> allowed_file (filename file) \<and> file_save E file = Saved
          \<and> identity_variant E file = Inl (Exception m) \<longrightarrow>
        fst (batch_item E w file) = Inr (Failed (filename file) m)
      \<and> fst (augmented_item E w file) = Inr (Failed (filename file) m))
   \<and> (\<forall>file w m t. truthy file \<and> allowed_file (filename file) \<and> file_save E file = Saved
          \<and> identity_variant E file = Inr t
          \<and> enhanced_variant E (Some (content file)) = Inl (Exception m) \<longrightarrow>
        fst (augmented_item E w file) = Inr (Failed (filename file) m))
   \<and> (\<forall>file m. ocr E (From_path (Some (content file))) = Inl (Exception m)
        \<longrightarrow> identity_variant E file = Inl (Exception m))
   \<and> (\<forall>stored m. cvtColor E (imread E stored) = Inl (Exception m)
        \<longrightarrow> enhanced_variant E stored = Inl (Exception m))
   \<and> (\<forall>pre bad post w w1 w2 w3. \<exists>before out after.
          fst (for_each_file (batch_item E) w1 [] pre) = Inr before
        \<and> fst (batch_item E w2 bad) = Inr out
        \<and> fst (for_each_file (batch_item E) w3 [] post) = Inr after
        \<and> fst (for_each_file (batch_item E) w [] (pre @ bad # post)) = Inr (before @ out # after))
   \<and> (\<forall>pre bad post w w1 w2 w3. \<exists>before out after.
          fst (for_each_file (augmented_item E) w1 [] pre) = Inr before
        \<and> fst (augmented_item E w2 bad) = Inr out
        \<and> fst (for_each_file (augmented_item E) w3 [] post) = Inr after
        \<and> fst (for_each_file (augmented_item E) w [] (pre @ bad # post)) = Inr (before @ out # after))
   \<and> (\<forall>files w. (\<exists>file\<in>set files. filename file \<noteq> '''') \<longrightarrow>
        (\<exists>results w'. upload_and_ocr_batch E w (Some files) = (Ok_results results, w'))
      \<and> (\<exists>results w'. upload_and_ocr_batch_augmented E w (Some files) = (Ok_results results, w')))"
proof (intro conjI allI impI)
  show "fst (batch_item E w u) = Inr (Failed (display_name u) ''File type not allowed'')"
    if "\<not> (truthy u \<and> allowed_file (filename u))" for u w
    using batch_item_rejected [OF that, of E w] by (simp add: not_allowed_def)
  show "fst (augmented_item E w u) = Inr (Failed (display_name u) ''File type not allowed'')"
    if "\<not> (truthy u \<and> allowed_file (filename u))" for u w
    using augmented_item_rejected [OF that, of E w] by (simp add: not_allowed_def)
  show "fst (batch_item E w u) = Inr (Failed (filename u) m)"
    if "truthy u \<and> allowed_file (filename u) \<and> file_save E u = Save_raised (Exception m) left"
    for u w m left
    using that by (simp add: fst_batch_item simple_outcome_def)
  show "fst (augmented_item E w u) = Inr (Failed (filename u) m)"
    if "truthy u \<and> allowed_file (filename u) \<and> file_save E u = Save_raised (Exception m) left"
    for u w m left
    using that by (simp add: fst_augmented_item augmented_outcome_def)
  show "fst (batch_item E w u) = Inr (Failed (filename u) m)"
    if "truthy u \<and> allowed_file (filename u) \<and> file_save E u = Saved
          \<and> identity_variant E u = Inl (Exception m)"
    for u w m
    using that by (simp add: fst_batch_item simple_outcome_def)
  show "fst (augmented_item E w u) = Inr (Failed (filename u) m)"
    if "truthy u \<and> allowed_file (filename u) \<and> file_save E u = Saved
          \<and> identity_variant E u = Inl (Exception m)"
    for u w m
    using that by (simp add: fst_augmented_item augmented_outcome_def)
  show "fst (augmented_item E w u) = Inr (Failed (filename u) m)"
    if "truthy u \<and> allowed_file (filename u) \<and> file_save E u = Saved
          \<and> identity_variant E u = Inr t
          \<and> enhanced_variant E (Some (content u)) = Inl (Exception m)"
    for u w m t
    using that by (simp add: fst_augmented_item augmented_outcome_def)
  show "identity_variant E u = Inl (Exception m)"
    if "ocr E (From_path (Some (content u))) = Inl (Exception m)"
    for u m using that by (simp add: identity_variant_def)
  show "enhanced_variant E stored = Inl (Exception m)"
    if "cvtColor E (imread E stored) = Inl (Exception m)"
    for stored m using that by (simp add: enhanced_variant_def)
  show "\<exists>before out after.
          fst (for_each_file (batch_item E) w1 [] pre) = Inr before
        \<and> fst (batch_item E w2 bad) = Inr out
        \<and> fst (for_each_file (batch_item E) w3 [] post) = Inr after
        \<and> fst (for_each_file (batch_item E) w [] (pre @ bad # post)) = Inr (before @ out # after)"
    for pre bad post w w1 w2 w3
    using simple_outcome_projr [OF assms, of bad]
    by (simp add: fst_batch_loop [OF assms] fst_batch_item)
  show "\<exists>before out after.
          fst (for_each_file (augmented_item E) w1 [] pre) = Inr before
        \<and> fst (augmented_item E w2 bad) = Inr out
        \<and> fst (for_each_file (augmented_item E) w3 [] post) = Inr after
        \<and> fst (for_each_file (augmented_item E) w [] (pre @ bad # post)) = Inr (before @ out # after)"
    for pre bad post w w1 w2 w3
    using augmented_outcome_projr [OF assms, of bad]
    by (simp add: fst_augmented_loop [OF assms] fst_augmented_item)
  show "\<exists>results w'. upload_and_ocr_batch E w (Some files) = (Ok_results results, w')"
    if "\<exists>file\<in>set files. filename file \<noteq> ''''" for files w
    using batch_response [OF that assms, of w] by blast
  show "\<exists>results w'. upload_and_ocr_batch_augmented E w (Some files) = (Ok_results results, w')"
    if "\<exists>file\<in>set files. filename file \<noteq> ''''" for files w
    using augmented_response [OF that assms, of w] by blast
qed

theorem item_failure_is_isolated_witness:
  "fst (for_each_file (batch_item (stub_env Saved fails_on_bad None (Inr sample_result))) empty_world []
         [\<lparr>filename = ''a.png'', content = ''good''\<rparr>, \<lparr>filename = ''b.png'', content = ''bad''\<rparr>,
          \<lparr>filename = ''c.jpg'', content = ''good''\<rparr>])
     = Inr [Success ''a.png'' ''Hello'', Failed ''b.png'' ''detector failed'', Success ''c.jpg'' ''Hello'']"
proof -
  let ?E = "stub_env Saved fails_on_bad None (Inr sample_result)"
  let ?a = "\<lparr>filename = ''a.png'', content = ''good''\<rparr>"
  let ?b = "\<lparr>filename = ''b.png'', content = ''bad''\<rparr>"
  let ?c = "\<lparr>filename = ''c.jpg'', content = ''good''\<rparr>"
  have x: "only_exceptions ?E"
    by (auto simp add: only_exceptions_def stub_env_def fails_on_bad_def
        split: ocr_input.splits option.splits if_splits)
  note t = item_failure_is_isolated [OF x]
  from t have "\<forall>file m. ocr ?E (From_path (Some (content file))) = Inl (Exception m)
      \<longrightarrow> identity_variant ?E file = Inl (Exception m)"
    by (elim conjE)
  then have "ocr ?E (From_path (Some (content ?b))) = Inl (Exception ''detector failed'')
      \<longrightarrow> identity_variant ?E ?b = Inl (Exception ''detector failed'')"
    by (elim allE)
  then have i: "identity_variant ?E ?b = Inl (Exception ''detector failed'')"
    by (simp add: stub_env_def fails_on_bad_def)
  from t have "\<forall>file w m. truthy file \<and> allowed_file (filename file) \<and> file_save ?E file = Saved
          \<and> identity_variant ?E file = Inl (Exception m) \<longrightarrow>
        fst (batch_item ?E w file) = Inr (Failed (filename file) m)
      \<and> fst (augmented_item ?E w file) = Inr (Failed (filename file) m)"
    by (elim conjE)
  then have "truthy ?b \<and> allowed_file (filename ?b) \<and> file_save ?E ?b = Saved
          \<and> identity_variant ?E ?b = Inl (Exception ''detector failed'') \<longrightarrow>
        fst (batch_item ?E empty_world ?b) = Inr (Failed (filename ?b) ''detector failed'')
      \<and> fst (augmented_item ?E empty_world ?b) = Inr (Failed (filename ?b) ''detector failed'')"
    by (elim allE)
  then have b: "fst (batch_item ?E empty_world ?b) = Inr (Failed ''b.png'' ''detector failed'')"
    using i by (simp add: truthy_def allowed_examples stub_env_def)
  from t have "\<forall>pre bad post w w1 w2 w3. \<exists>before out after.
          fst (for_each_file (batch_item ?E) w1 [] pre) = Inr before
        \<and> fst (batch_item ?E w2 bad) = Inr out
        \<and> fst (for_each_file (batch_item ?E) w3 [] post) = Inr after
        \<and> fst (for_each_file (batch_item ?E) w [] (pre @ bad # post)) = Inr (before @ out # after)"
    by (elim conjE)
  then have "\<exists>before out after.
          fst (for_each_file (batch_item ?E) empty_world [] [?a]) = Inr before
        \<and> fst (batch_item ?E empty_world ?b) = Inr out
        \<and> fst (for_each_file (batch_item ?E) empty_world [] [?c]) = Inr after
        \<and> fst (for_each_file (batch_item ?E) empty_world [] ([?a] @ ?b # [?c])) = Inr (before @ out # after)"
    by (elim allE)
  then obtain before out after where s:
        "fst (for_each_file (batch_item ?E) empty_world [] [?a]) = Inr before"
        "fst (batch_item ?E empty_world ?b) = Inr out"
        "fst (for_each_file (batch_item ?E) empty_world [] [?c]) = Inr after"
        "fst (for_each_file (batch_item ?E) empty_world [] ([?a] @ ?b # [?c])) = Inr (before @ out # after)"
    by blast
  have ac: "fst (batch_item ?E empty_world ?a) = Inr (Success ''a.png'' ''Hello'')"
      "fst (batch_item ?E empty_world ?c) = Inr (Success ''c.jpg'' ''Hello'')"
    by (simp_all add: fst_batch_item simple_outcome_def truthy_def allowed_examples
        stub_env_def fails_on_bad_def identity_variant_def reconstruct_sample)
  have "before = [Success ''a.png'' ''Hello'']"
    using s(1) fst_loop_single [of "batch_item ?E" empty_world ?a, OF ac(1)] by simp
  moreover have "after = [Success ''c.jpg'' ''Hello'']"
    using s(3) fst_loop_single [of "batch_item ?E" empty_world ?c, OF ac(2)] by simp
  moreover have "out = Failed ''b.png'' ''detector failed''" using s(2) b by simp
  ultimately show ?thesis using s(4) by simp
qed

text \<open>
  C7.  A name is accepted if and only if it contains a dot and what follows its last dot,
  lowercased, is png, jpg or jpeg; a name without a dot is rejected.  A file whose name is
  rejected gets the error entry ``File type not allowed'' (status 400 from the single-file
  endpoint) and nothing is done for it: the state is unchanged, no identifier is drawn and
  no collaborator is called.  A batch of three files whose second name ends in .gif gives
  the entries and the final state of the batch of the other two files, with the error entry
  of the .gif file between them.
\<close>

theorem accepted_iff_allowed_extension:
  "(allowed_file name \<longleftrightarrow>
      (\<exists>base ext. name = base @ ''.'' @ ext \<and> CHR ''.'' \<notin> set ext
         \<and> lower ext \<in> {''png'', ''jpg'', ''jpeg''}))
   \<and> (CHR ''.'' \<notin> set name \<longrightarrow> \<not> allowed_file name)
   \<and> lower ''PnG'' = ''png''
   \<and> (\<forall>E w file. \<not> allowed_file (filename file) \<longrightarrow>
        batch_item E w file = (Inr (Failed (display_name file) ''File type not allowed''), w)
      \<and> augmented_item E w file = (Inr (Failed (display_name file) ''File type not allowed''), w))
   \<and> (\<forall>E w file. filename file \<noteq> '''' \<and> \<not> allowed_file (filename file) \<longrightarrow>
        upload_and_ocr E w (Some file) = (Http_error 400 ''File type not allowed'', w))
   \<and> (\<forall>E w f1 f2 f3 base r1 r3 w'. filename f2 = base @ ''.gif''
          \<and> for_each_file (batch_item E) w [] [f1, f3] = (Inr [r1, r3], w') \<longrightarrow>
        upload_and_ocr_batch E w (Some [f1, f2, f3])
          = (Ok_results [r1, Failed (filename f2) ''File type not allowed'', r3], w'))"
proof (intro conjI allI impI)
  show "allowed_file name \<longleftrightarrow>
      (\<exists>base ext. name = base @ ''.'' @ ext \<and> CHR ''.'' \<notin> set ext
         \<and> lower ext \<in> {''png'', ''jpg'', ''jpeg''})"
    using allowed_file_iff [of name] by (simp add: ALLOWED_EXTENSIONS_def)
  show "\<not> allowed_file name" if "CHR ''.'' \<notin> set name" using that by (simp add: allowed_file_def)
  show "lower ''PnG'' = ''png''" by (rule lower_png)
  show "batch_item E w u = (Inr (Failed (display_name u) ''File type not allowed''), w)"
    if "\<not> allowed_file (filename u)" for E w u
    using that batch_item_rejected [of u E w] by (simp add: not_allowed_def)
  show "augmented_item E w u = (Inr (Failed (display_name u) ''File type not allowed''), w)"
    if "\<not> allowed_file (filename u)" for E w u
    using that augmented_item_rejected [of u E w] by (simp add: not_allowed_def)
  show "upload_and_ocr E w (Some u) = (Http_error 400 ''File type not allowed'', w)"
    if "filename u \<noteq> '''' \<and> \<not> allowed_file (filename u)" for E w u
    using that single_rejected [of u E w] by (simp add: not_allowed_def)
  show "upload_and_ocr_batch E w (Some [f1, f2, f3])
          = (Ok_results [r1, Failed (filename f2) ''File type not allowed'', r3], w')"
    if h: "filename f2 = base @ ''.gif''
          \<and> for_each_file (batch_item E) w [] [f1, f3] = (Inr [r1, r3], w')"
    for E w f1 f2 f3 base r1 r3 w'
  proof -
    have "filename f2 \<noteq> ''''" using h by simp
    moreover have "\<not> allowed_file (filename f2)" using h gif_rejected [of base] by simp
    ultimately show ?thesis using h batch_of_three [of f2 E w f1 f3 r1 r3 w']
      by (simp add: not_allowed_def)
  qed
qed

theorem accepted_iff_allowed_extension_witness:
  "allowed_file ''photo.JPeG'' \<and> \<not> allowed_file ''png''
   \<and> (\<exists>w'. upload_and_ocr_batch (stub_env Saved reads_all None (Inr sample_result)) empty_world
              (Some [upload_named ''a.png'', upload_named ''b.gif'', upload_named ''c.jpg''])
            = (Ok_results [Success ''a.png'' ''Hello'', Failed ''b.gif'' ''File type not allowed'',
                           Success ''c.jpg'' ''Hello''], w'))"
proof -
  let ?E = "stub_env Saved reads_all None (Inr sample_result)"
  have e: "\<exists>base ext. ''photo.JPeG'' = base @ ''.'' @ ext \<and> CHR ''.'' \<notin> set ext
         \<and> lower ext \<in> {''png'', ''jpg'', ''jpeg''}"
    by (intro exI [of _ "''photo''"] exI [of _ "''JPeG''"]) (simp add: lower_def lower_char_def uppercase_def lowercase_def)
  from accepted_iff_allowed_extension [of "''photo.JPeG''"]
  have "allowed_file ''photo.JPeG'' \<longleftrightarrow>
      (\<exists>base ext. ''photo.JPeG'' = base @ ''.'' @ ext \<and> CHR ''.'' \<notin> set ext
         \<and> lower ext \<in> {''png'', ''jpg'', ''jpeg''})"
    by (elim conjE)
  then have a: "allowed_file ''photo.JPeG''" using e by blast
  from accepted_iff_allowed_extension [of "''png''"]
  have "CHR ''.'' \<notin> set ''png'' \<longrightarrow> \<not> allowed_file ''png''" by (elim conjE)
  then have b: "\<not> allowed_file ''png''" by simp
  have x: "only_exceptions ?E"
    by (auto simp add: only_exceptions_def stub_env_def reads_all_def
        split: ocr_input.splits option.splits)
  have "fst (for_each_file (batch_item ?E) empty_world []
          [upload_named ''a.png'', upload_named ''c.jpg''])
      = Inr ([] @ map (\<lambda>file. projr (simple_outcome ?E file))
                    [upload_named ''a.png'', upload_named ''c.jpg''])"
    using x by (rule fst_batch_loop)
  also have "\<dots> = Inr [Success ''a.png'' ''Hello'', Success ''c.jpg'' ''Hello'']"
    by (simp add: simple_outcome_def upload_named_def truthy_def
        allowed_examples stub_env_def reads_all_def identity_variant_def reconstruct_sample)
  finally obtain w' where l: "for_each_file (batch_item ?E) empty_world []
          [upload_named ''a.png'', upload_named ''c.jpg'']
      = (Inr [Success ''a.png'' ''Hello'', Success ''c.jpg'' ''Hello''], w')"
    by (metis prod.collapse)
  from accepted_iff_allowed_extension [of "''png''"]
  have "\<forall>E w f1 f2 f3 base r1 r3 w'. filename f2 = base @ ''.gif''
          \<and> for_each_file (batch_item E) w [] [f1, f3] = (Inr [r1, r3], w') \<longrightarrow>
        upload_and_ocr_batch E w (Some [f1, f2, f3])
          = (Ok_results [r1, Failed (filename f2) ''File type not allowed'', r3], w')"
    by (elim conjE)
  then have "filename (upload_named ''b.gif'') = ''b'' @ ''.gif''
          \<and> for_each_file (batch_item ?E) empty_world [] [upload_named ''a.png'', upload_named ''c.jpg'']
              = (Inr [Success ''a.png'' ''Hello'', Success ''c.jpg'' ''Hello''], w') \<longrightarrow>
        upload_and_ocr_batch ?E empty_world
            (Some [upload_named ''a.png'', upload_named ''b.gif'', upload_named ''c.jpg''])
          = (Ok_results [Success ''a.png'' ''Hello'',
               Failed (filename (upload_named ''b.gif'')) ''File type not allowed'',
               Success ''c.jpg'' ''Hello''], w')"
    by (elim allE)
  then have "upload_and_ocr_batch ?E empty_world
            (Some [upload_named ''a.png'', upload_named ''b.gif'', upload_named ''c.jpg''])
          = (Ok_results [Success ''a.png'' ''Hello'', Failed ''b.gif'' ''File type not allowed'',
               Success ''c.jpg'' ''Hello''], w')"
    using l by (simp add: upload_named_def)
  then show ?thesis using a b by blast
qed


subsection \<open>The state after an item\<close>

lemma snd_except_finally_pair: "snd (except_finally name p r) = remove_if_exists p (snd r)"
  by (cases r) (simp add: snd_except_finally)

lemma snd_batch_item:
  "truthy file \<Longrightarrow> allowed_file (filename file) \<Longrightarrow>
   snd (batch_item E w file)
     = remove_if_exists (item_path E w file)
         (snd (batch_try E file (item_path E w file) (w\<lparr>uuid_calls := Suc (uuid_calls w)\<rparr>)))"
  by (simp add: batch_item_def Let_def item_path_def snd_except_finally_pair)

lemma snd_augmented_item:
  "truthy file \<Longrightarrow> allowed_file (filename file) \<Longrightarrow>
   snd (augmented_item E w file)
     = remove_if_exists (item_path E w file)
         (snd (augmented_try E file (item_path E w file) (w\<lparr>uuid_calls := Suc (uuid_calls w)\<rparr>)))"
  by (simp add: augmented_item_def Let_def item_path_def snd_except_finally_pair)

lemma batch_item_Saved_world:
  assumes "truthy file" "allowed_file (filename file)" "file_save E file = Saved"
  shows "snd (batch_item E w file)
     = released (item_path E w file)
         [Save (item_path E w file), Ocr_path (item_path E w file), Remove (item_path E w file)] w"
  using assms
  by (simp add: snd_batch_item batch_try_Saved remove_if_exists_def log_def released_def)

lemma batch_item_partial_world:
  assumes "truthy file" "allowed_file (filename file)" "file_save E file = Save_raised e (Some b)"
  shows "snd (batch_item E w file)
     = released (item_path E w file) [Save (item_path E w file), Remove (item_path E w file)] w"
  using assms
  by (simp add: snd_batch_item batch_try_raised remove_if_exists_def log_def released_def)

lemma batch_item_not_created_world:
  assumes "truthy file" "allowed_file (filename file)" "file_save E file = Save_raised e None"
    and "storage w (item_path E w file) = None"
  shows "snd (batch_item E w file) = released (item_path E w file) [Save (item_path E w file)] w"
  using assms
  by (simp add: snd_batch_item batch_try_raised remove_if_exists_def log_def released_def fun_upd_idem)

lemma storage_remove_if_exists: "storage (remove_if_exists p w) = (storage w)(p := None)"
  by (auto simp add: remove_if_exists_def log_def fun_upd_idem)

lemma storage_batch_try:
  "\<exists>v. storage (snd (batch_try E file p w)) = (storage w)(p := v)"
proof (cases "file_save E file")
  case Saved
  then show ?thesis by (auto simp add: batch_try_Saved log_def)
next
  case (Save_raised e left)
  then show ?thesis
    by (cases left) (auto simp add: batch_try_raised log_def intro: exI [of _ "storage w p"])
qed

lemma storage_augmented_try:
  "\<exists>v. storage (snd (augmented_try E file p w)) = (storage w)(p := v)"
proof (cases "file_save E file")
  case (Save_raised e left)
  then show ?thesis
    by (cases left) (auto simp add: augmented_try_raised log_def intro: exI [of _ "storage w p"])
next
  case Saved
  show ?thesis
  proof (cases "identity_variant E file")
    case (Inl e)
    then show ?thesis using Saved by (auto simp add: augmented_try_identity_fails log_def)
  next
    case (Inr t)
    then show ?thesis using Saved
      by (auto simp add: augmented_try_identity_ok Let_def storage_augment log_def)
  qed
qed

lemma storage_batch_item:
  assumes "truthy file" "allowed_file (filename file)"
  shows "storage (snd (batch_item E w file)) = (storage w)(item_path E w file := None)"
proof -
  obtain v where "storage (snd (batch_try E file (item_path E w file) (w\<lparr>uuid_calls := Suc (uuid_calls w)\<rparr>)))
      = (storage w)(item_path E w file := v)"
    using storage_batch_try [of E "file" "item_path E w file" "w\<lparr>uuid_calls := Suc (uuid_calls w)\<rparr>"]
    by auto
  then show ?thesis using assms by (simp add: snd_batch_item storage_remove_if_exists)
qed

lemma storage_augmented_item:
  assumes "truthy file" "allowed_file (filename file)"
  shows "storage (snd (augmented_item E w file)) = (storage w)(item_path E w file := None)"
proof -
  obtain v where "storage (snd (augmented_try E file (item_path E w file) (w\<lparr>uuid_calls := Suc (uuid_calls w)\<rparr>)))
      = (storage w)(item_path E w file := v)"
    using storage_augmented_try [of E "file" "item_path E w file" "w\<lparr>uuid_calls := Suc (uuid_calls w)\<rparr>"]
    by auto
  then show ?thesis using assms by (simp add: snd_augmented_item storage_remove_if_exists)
qed


lemma augmented_item_identity_ok_world:
  assumes "truthy file" "allowed_file (filename file)" "file_save E file = Saved"
    and "identity_variant E file = Inr t"
  shows "\<exists>evs. snd (augmented_item E w file)
     = released (item_path E w file)
         (Save (item_path E w file) # Ocr_path (item_path E w file) # Imread (item_path E w file)
            # CvtColor # evs @ [Remove (item_path E w file)]) w
     \<and> set evs \<subseteq> {Threshold, Ocr_array}"
proof -
  let ?p = "item_path E w file"
  let ?w2 = "log (Ocr_path ?p) (log (Save ?p)
      (w\<lparr>uuid_calls := Suc (uuid_calls w), storage := (storage w)(?p \<mapsto> content file)\<rparr>))"
  obtain evs where evs: "snd (augment E ?p ?w2) = ?w2\<lparr>events := events ?w2 @ Imread ?p # CvtColor # evs\<rparr>"
      "set evs \<subseteq> {Threshold, Ocr_array}"
    using augment_world [of E ?p ?w2] by blast
  have "snd (augmented_item E w file) = remove_if_exists ?p (snd (augment E ?p ?w2))"
    using assms by (simp add: snd_augmented_item augmented_try_identity_ok Let_def)
  also have "\<dots> = remove_if_exists ?p (?w2\<lparr>events := events ?w2 @ Imread ?p # CvtColor # evs\<rparr>)"
    by (simp only: evs(1))
  also have "\<dots> = released ?p (Save ?p # Ocr_path ?p # Imread ?p # CvtColor # evs @ [Remove ?p]) w"
    by (simp add: remove_if_exists_def log_def released_def)
  finally show ?thesis using evs(2) by blast
qed


subsection \<open>The claims about the augmented endpoint and the temporary files\<close>

lemma upload_and_ocr_save_raised:
  assumes "filename file \<noteq> ''''" "allowed_file (filename file)"
    and "file_save E file = Save_raised e left"
  shows "upload_and_ocr E w (Some file)
     = (Unhandled (message e),
        log (Save (path_join UPLOAD_FOLDER (filename file)))
          (case left of None \<Rightarrow> w
           | Some b \<Rightarrow> w\<lparr>storage := (storage w)(path_join UPLOAD_FOLDER (filename file) \<mapsto> b)\<rparr>))"
  using assms by (simp add: upload_and_ocr_def truthy_def save_file_def Let_def split: option.splits)

lemma upload_and_ocr_saved_releases:
  assumes "filename file \<noteq> ''''" "allowed_file (filename file)" and "file_save E file = Saved"
  shows "storage (snd (upload_and_ocr E w (Some file)))
           = (storage w)(path_join UPLOAD_FOLDER (filename file) := None)
       \<and> events (snd (upload_and_ocr E w (Some file)))
           = events w @ [Save (path_join UPLOAD_FOLDER (filename file)),
                         Ocr_path (path_join UPLOAD_FOLDER (filename file)),
                         Remove (path_join UPLOAD_FOLDER (filename file))]"
  using assms
  by (simp add: upload_and_ocr_def truthy_def save_file_def ocr_file_def Let_def log_def
      remove_if_exists_def split: sum.splits raised.splits)

text \<open>
  C4.  In the augmented endpoint, for a file that passes validation, is saved and whose
  identity text \<open>original_text\<close> has been computed: the calls are made in the order save,
  detector on the file, \<^verbatim>\<open>imread\<close>, \<^verbatim>\<open>cvtColor\<close>, then what remains of the augmentation,
  then the removal of the file.  If a step of the augmentation raises (\<^verbatim>\<open>cvtColor\<close>,
  \<^verbatim>\<open>threshold\<close>, the detector on the array, the reconstruction), the entry of the item is
  an error with the message of that exception and the identity text is not in it; if the
  augmentation gives a text, the entry is a success with that text as \<^verbatim>\<open>text\<close>, the
  identity text as \<^verbatim>\<open>original_text\<close>, and the word counts of both.
\<close>

theorem augmentation_failure_fails_the_item:
  assumes "truthy file" and "allowed_file (filename file)" and "file_save E file = Saved"
    and "identity_variant E file = Inr original_text"
  shows "(\<forall>m. enhanced_variant E (Some (content file)) = Inl (Exception m) \<longrightarrow>
            fst (augmented_item E w file) = Inr (Failed (filename file) m))
     \<and> (\<forall>m. cvtColor E (imread E (Some (content file))) = Inl (Exception m) \<longrightarrow>
            fst (augmented_item E w file) = Inr (Failed (filename file) m))
     \<and> (\<forall>g m. cvtColor E (imread E (Some (content file))) = Inr g
            \<and> threshold E g = Inl (Exception m) \<longrightarrow>
            fst (augmented_item E w file) = Inr (Failed (filename file) m))
     \<and> (\<forall>g a m. cvtColor E (imread E (Some (content file))) = Inr g \<and> threshold E g = Inr a
            \<and> ocr E (From_array a) = Inl (Exception m) \<longrightarrow>
            fst (augmented_item E w file) = Inr (Failed (filename file) m))
     \<and> (\<forall>t. enhanced_variant E (Some (content file)) = Inr t \<longrightarrow>
            fst (augmented_item E w file)
              = Inr (Augmented (filename file) t original_text
                       [(''Original'', word_count original_text),
                        (''Grayscale + Threshold'', word_count t)]))
     \<and> (\<exists>evs. events (snd (augmented_item E w file))
            = events w @ Save (item_path E w file) # Ocr_path (item_path E w file)
                # Imread (item_path E w file) # CvtColor # evs @ [Remove (item_path E w file)]
          \<and> set evs \<subseteq> {Threshold, Ocr_array})"
proof (intro conjI allI impI)
  note o = fst_augmented_item augmented_outcome_def assms
  show "fst (augmented_item E w file) = Inr (Failed (filename file) m)"
    if "enhanced_variant E (Some (content file)) = Inl (Exception m)" for m
    using that by (simp add: o)
  show "fst (augmented_item E w file) = Inr (Failed (filename file) m)"
    if "cvtColor E (imread E (Some (content file))) = Inl (Exception m)" for m
    using that by (simp add: o enhanced_variant_def)
  show "fst (augmented_item E w file) = Inr (Failed (filename file) m)"
    if "cvtColor E (imread E (Some (content file))) = Inr g \<and> threshold E g = Inl (Exception m)"
    for g m
    using that by (simp add: o enhanced_variant_def)
  show "fst (augmented_item E w file) = Inr (Failed (filename file) m)"
    if "cvtColor E (imread E (Some (content file))) = Inr g \<and> threshold E g = Inr a
            \<and> ocr E (From_array a) = Inl (Exception m)"
    for g a m
    using that by (simp add: o enhanced_variant_def)
  show "fst (augmented_item E w file)
              = Inr (Augmented (filename file) t original_text
                       [(''Original'', word_count original_text),
                        (''Grayscale + Threshold'', word_count t)])"
    if "enhanced_variant E (Some (content file)) = Inr t" for t
    using that by (simp add: o)
  show "\<exists>evs. events (snd (augmented_item E w file))
            = events w @ Save (item_path E w file) # Ocr_path (item_path E w file)
                # Imread (item_path E w file) # CvtColor # evs @ [Remove (item_path E w file)]
          \<and> set evs \<subseteq> {Threshold, Ocr_array}"
    using augmented_item_identity_ok_world [OF assms, of w] by (auto simp add: released_def)
qed

theorem augmentation_failure_fails_the_item_witness:
  "fst (augmented_item (stub_env Saved reads_all None (Inr sample_result)) empty_world
          (upload_named ''scan.png''))
     = Inr (Failed ''scan.png'' ''cvtColor: empty image'')
   \<and> fst (augmented_item (stub_env Saved reads_all (Some [0]) (Inr sample_result)) empty_world
          (upload_named ''scan.png''))
     = Inr (Augmented ''scan.png'' ''Hello'' ''Hello''
              [(''Original'', 1), (''Grayscale + Threshold'', 1)])"
proof -
  let ?E = "stub_env Saved reads_all None (Inr sample_result)"
  let ?F = "stub_env Saved reads_all (Some [0]) (Inr sample_result)"
  let ?u = "upload_named ''scan.png''"
  have h: "truthy ?u" "allowed_file (filename ?u)"
    by (simp_all add: truthy_def upload_named_def allowed_examples)
  have sE: "file_save ?E ?u = Saved" and sF: "file_save ?F ?u = Saved"
    by (simp_all add: stub_env_def)
  have iE: "identity_variant ?E ?u = Inr ''Hello''" and iF: "identity_variant ?F ?u = Inr ''Hello''"
    by (simp_all add: identity_variant_def stub_env_def reads_all_def reconstruct_sample)
  have wc: "word_count ''Hello'' = 1" by (simp add: word_count_def is_space_def)
  from augmentation_failure_fails_the_item [OF h sE iE, of empty_world]
  have "\<forall>m. cvtColor ?E (imread ?E (Some (content ?u))) = Inl (Exception m) \<longrightarrow>
            fst (augmented_item ?E empty_world ?u) = Inr (Failed (filename ?u) m)"
    by (elim conjE)
  then have "cvtColor ?E (imread ?E (Some (content ?u))) = Inl (Exception ''cvtColor: empty image'') \<longrightarrow>
            fst (augmented_item ?E empty_world ?u) = Inr (Failed (filename ?u) ''cvtColor: empty image'')"
    by (elim allE)
  then have a: "fst (augmented_item ?E empty_world ?u) = Inr (Failed ''scan.png'' ''cvtColor: empty image'')"
    by (simp add: stub_env_def upload_named_def)
  from augmentation_failure_fails_the_item [OF h sF iF, of empty_world]
  have "\<forall>t. enhanced_variant ?F (Some (content ?u)) = Inr t \<longrightarrow>
            fst (augmented_item ?F empty_world ?u)
              = Inr (Augmented (filename ?u) t ''Hello''
                       [(''Original'', word_count ''Hello''),
                        (''Grayscale + Threshold'', word_count t)])"
    by (elim conjE)
  then have "enhanced_variant ?F (Some (content ?u)) = Inr ''Hello'' \<longrightarrow>
            fst (augmented_item ?F empty_world ?u)
              = Inr (Augmented (filename ?u) ''Hello'' ''Hello''
                       [(''Original'', word_count ''Hello''),
                        (''Grayscale + Threshold'', word_count ''Hello'')])"
    by (elim allE)
  moreover have "enhanced_variant ?F (Some (content ?u)) = Inr ''Hello''"
    by (simp add: enhanced_variant_def stub_env_def reconstruct_sample)
  ultimately have b: "fst (augmented_item ?F empty_world ?u)
      = Inr (Augmented ''scan.png'' ''Hello'' ''Hello'' [(''Original'', 1), (''Grayscale + Threshold'', 1)])"
    by (simp add: wc upload_named_def)
  show ?thesis using a b by blast
qed




text \<open>
  C6.  When \<^verbatim>\<open>file.save\<close> raises after it has created the destination (here: no space
  left on the device, two bytes written), the single-file endpoint is left with the
  exception, since line 222 is before the \<^verbatim>\<open>try\<close> of line 224: it gives no JSON answer,
  and the file stays in the upload folder, one save and no removal.  The batch endpoint,
  which calls \<^verbatim>\<open>file.save\<close> inside its \<^verbatim>\<open>try\<close>, records the error for the same upload and
  removes the file: one save, one removal.  (\<open>storage_batch_item\<close>,
  \<open>storage_augmented_item\<close> and \<open>upload_and_ocr_saved_releases\<close> above: on every other
  path the file is removed.)
\<close>

theorem single_file_save_failure_leaves_the_file:
  "fst (upload_and_ocr
          (stub_env (Save_raised (Exception ''No space left on device'') (Some ''by'')) reads_all None
             (Inr sample_result))
          empty_world (Some (upload_named ''scan.png'')))
     = Unhandled ''No space left on device''
   \<and> storage (snd (upload_and_ocr
          (stub_env (Save_raised (Exception ''No space left on device'') (Some ''by'')) reads_all None
             (Inr sample_result))
          empty_world (Some (upload_named ''scan.png'')))) ''uploads/scan.png''
     = Some ''by''
   \<and> events (snd (upload_and_ocr
          (stub_env (Save_raised (Exception ''No space left on device'') (Some ''by'')) reads_all None
             (Inr sample_result))
          empty_world (Some (upload_named ''scan.png''))))
     = [Save ''uploads/scan.png'']
   \<and> fst (batch_item
          (stub_env (Save_raised (Exception ''No space left on device'') (Some ''by'')) reads_all None
             (Inr sample_result))
          empty_world (upload_named ''scan.png''))
     = Inr (Failed ''scan.png'' ''No space left on device'')
   \<and> storage (snd (batch_item
          (stub_env (Save_raised (Exception ''No space left on device'') (Some ''by'')) reads_all None
             (Inr sample_result))
          empty_world (upload_named ''scan.png''))) ''uploads/u_scan.png''
     = None
   \<and> events (snd (batch_item
          (stub_env (Save_raised (Exception ''No space left on device'') (Some ''by'')) reads_all None
             (Inr sample_result))
          empty_world (upload_named ''scan.png'')))
     = [Save ''uploads/u_scan.png'', Remove ''uploads/u_scan.png'']"
proof -
  let ?E = "stub_env (Save_raised (Exception ''No space left on device'') (Some ''by'')) reads_all None
             (Inr sample_result)"
  let ?u = "upload_named ''scan.png''"
  have h: "truthy ?u" "allowed_file (filename ?u)" "filename ?u \<noteq> ''''"
    by (simp_all add: truthy_def upload_named_def allowed_examples)
  have s: "file_save ?E ?u = Save_raised (Exception ''No space left on device'') (Some ''by'')"
    by (simp add: stub_env_def)
  have q: "path_join UPLOAD_FOLDER (filename ?u) = ''uploads/scan.png''"
    by (simp add: upload_named_def path_join_def UPLOAD_FOLDER_def)
  have p: "item_path ?E empty_world ?u = ''uploads/u_scan.png''"
    by (simp add: item_path_def stub_env_def empty_world_def upload_named_def path_join_def
        UPLOAD_FOLDER_def)
  have 1: "upload_and_ocr ?E empty_world (Some ?u)
      = (Unhandled ''No space left on device'',
         log (Save ''uploads/scan.png'')
           (empty_world\<lparr>storage := (storage empty_world)(''uploads/scan.png'' \<mapsto> ''by'')\<rparr>))"
    using upload_and_ocr_save_raised [OF h(3) h(2) s, of empty_world] by (simp add: q)
  have 2: "fst (batch_item ?E empty_world ?u) = Inr (Failed ''scan.png'' ''No space left on device'')"
    using h s by (simp add: fst_batch_item simple_outcome_def) (simp add: upload_named_def)
  have 3: "snd (batch_item ?E empty_world ?u)
      = released ''uploads/u_scan.png'' [Save ''uploads/u_scan.png'', Remove ''uploads/u_scan.png'']
          empty_world"
    using batch_item_partial_world [OF h(1) h(2) s, of empty_world] by (simp add: p)
  show ?thesis by (simp add: 1 2 3 log_def released_def) (simp add: empty_world_def)
qed


end
